theory Spec2Isabelle
  imports Complex_Main "HOL-Library.Multiset" "HOL-Library.Sublist"
begin

section \<open>The profile page of main-section.tsx: card store, grid span, drag and resize\<close>

text \<open>
  The source holds two successive versions of the component \<open>ProfilePage\<close>. The first
  (lines 1 to 349) keeps cards without grid spans; the second (lines 351 to 786) adds the
  fields \<open>gridColumn\<close> and \<open>gridRow\<close>, the grid configuration \<open>gridSize\<close> and the function
  \<open>calculateGridSpan\<close>. Definitions without a version suffix embed the second version;
  those of the first version end in \<open>_v1\<close>.
\<close>

subsection \<open>Numbers\<close>

text \<open>
  A TypeScript \<open>number\<close> is an IEEE 754 double. The model has the four kinds of value a
  double is: a finite one, given by the rational number it stands for, the two infinities
  and \<open>NaN\<close>. Every arithmetic operation computes the exact result and rounds it to the
  nearest double, ties to even, as the processor does: to 53 significant bits, on the grid
  of the subnormal numbers below \<open>2 powi (- 1022)\<close>, and to an infinity when the rounded
  magnitude reaches \<open>2 ^ 1024\<close>. The one thing left out is the sign of a zero. In
  \<open>calculateGridSpan\<close> a zero divisor can only be the sum of two opposite numbers, which
  is the positive zero, so a quotient by zero has the sign of the dividend; and the sign
  of a zero elsewhere does not reach the result, which is clamped from below by 1.
\<close>

datatype jsnum = Fin rat | PosInfinity | NegInfinity | NaN

text \<open>The position of the leading bit of a positive integer.\<close>

function log2floor :: "int \<Rightarrow> int" where
  "log2floor n = (if n < 2 then 0 else 1 + log2floor (n div 2))"
  by pat_completeness auto
termination
  by (relation "measure nat") auto

declare log2floor.simps [simp del]

text \<open>
  The binary exponent of a rational \<open>x\<close> other than 0: the \<open>e\<close> with
  \<open>2 powi e \<le> \<bar>x\<bar> < 2 powi (e + 1)\<close>, found from the leading bits of numerator and
  denominator.
\<close>

definition exponent :: "rat \<Rightarrow> int" where
  "exponent x =
     (let (p, q) = quotient_of \<bar>x\<bar>;
          k = log2floor p - log2floor q
      in if 2 powi k \<le> \<bar>x\<bar> then k else k - 1)"

definition round_half_even :: "rat \<Rightarrow> int" where
  "round_half_even x =
     (let f = \<lfloor>x\<rfloor>; r = x - of_int f
      in if r < 1 / 2 then f else if 1 / 2 < r then f + 1 else if even f then f else f + 1)"

text \<open>
  Rounding to the nearest multiple of the spacing of the doubles around \<open>x\<close>, with no
  bound on the exponent from above.
\<close>

definition rnd :: "rat \<Rightarrow> rat" where
  "rnd x =
     (if x = 0 then 0
      else let u = 2 powi (max (exponent x) (- 1022) - 52)
           in of_int (round_half_even (x / u)) * u)"

definition round_double :: "rat \<Rightarrow> jsnum" where
  "round_double x =
     (let y = rnd x
      in if 2 ^ 1024 \<le> y then PosInfinity
         else if y \<le> - (2 ^ 1024) then NegInfinity
         else Fin y)"

text \<open>The number that holds an integer: the integer itself up to \<open>2 ^ 53\<close>.\<close>

definition num_of_int :: "int \<Rightarrow> jsnum" where
  "num_of_int n = round_double (of_int n)"

fun js_neg :: "jsnum \<Rightarrow> jsnum" where
  "js_neg (Fin a) = Fin (- a)"
| "js_neg PosInfinity = NegInfinity"
| "js_neg NegInfinity = PosInfinity"
| "js_neg NaN = NaN"

fun js_add :: "jsnum \<Rightarrow> jsnum \<Rightarrow> jsnum" where
  "js_add NaN y = NaN"
| "js_add x NaN = NaN"
| "js_add PosInfinity NegInfinity = NaN"
| "js_add NegInfinity PosInfinity = NaN"
| "js_add PosInfinity y = PosInfinity"
| "js_add NegInfinity y = NegInfinity"
| "js_add x PosInfinity = PosInfinity"
| "js_add x NegInfinity = NegInfinity"
| "js_add (Fin a) (Fin b) = round_double (a + b)"

definition js_sub :: "jsnum \<Rightarrow> jsnum \<Rightarrow> jsnum" where
  "js_sub x y = js_add x (js_neg y)"

text \<open>The sign of a number as 1 or -1; a zero counts as positive.\<close>

fun js_sign :: "jsnum \<Rightarrow> int" where
  "js_sign (Fin a) = (if a < 0 then - 1 else 1)"
| "js_sign PosInfinity = 1"
| "js_sign NegInfinity = - 1"
| "js_sign NaN = 1"

definition signed_infinity :: "int \<Rightarrow> jsnum" where
  "signed_infinity s = (if s < 0 then NegInfinity else PosInfinity)"

fun js_mul :: "jsnum \<Rightarrow> jsnum \<Rightarrow> jsnum" where
  "js_mul NaN y = NaN"
| "js_mul x NaN = NaN"
| "js_mul (Fin a) (Fin b) = round_double (a * b)"
| "js_mul x y =
     (if x = Fin 0 \<or> y = Fin 0 then NaN else signed_infinity (js_sign x * js_sign y))"

fun js_div :: "jsnum \<Rightarrow> jsnum \<Rightarrow> jsnum" where
  "js_div NaN y = NaN"
| "js_div x NaN = NaN"
| "js_div (Fin a) (Fin b) =
     (if b \<noteq> 0 then round_double (a / b)
      else if a = 0 then NaN
      else signed_infinity (js_sign (Fin a)))"
| "js_div (Fin a) y = Fin 0"
| "js_div x (Fin b) = signed_infinity (js_sign x * js_sign (Fin b))"
| "js_div x y = NaN"

text \<open>\<open>Math.ceil\<close>: the ceiling of a double is a double, so nothing is rounded.\<close>

fun js_ceil :: "jsnum \<Rightarrow> jsnum" where
  "js_ceil (Fin q) = Fin (of_int \<lceil>q\<rceil>)"
| "js_ceil x = x"

text \<open>\<open>Math.min\<close> and \<open>Math.max\<close>: \<open>NaN\<close> if an argument is \<open>NaN\<close>.\<close>

fun js_min :: "jsnum \<Rightarrow> jsnum \<Rightarrow> jsnum" where
  "js_min NaN y = NaN"
| "js_min x NaN = NaN"
| "js_min NegInfinity y = NegInfinity"
| "js_min x NegInfinity = NegInfinity"
| "js_min PosInfinity y = y"
| "js_min x PosInfinity = x"
| "js_min (Fin a) (Fin b) = Fin (min a b)"

fun js_max :: "jsnum \<Rightarrow> jsnum \<Rightarrow> jsnum" where
  "js_max NaN y = NaN"
| "js_max x NaN = NaN"
| "js_max PosInfinity y = PosInfinity"
| "js_max x PosInfinity = PosInfinity"
| "js_max NegInfinity y = y"
| "js_max x NegInfinity = x"
| "js_max (Fin a) (Fin b) = Fin (max a b)"

text \<open>The numbers that \<open>!x\<close> and \<open>x || y\<close> take for false: zero and \<open>NaN\<close>.\<close>

definition falsy :: "jsnum \<Rightarrow> bool" where
  "falsy x \<longleftrightarrow> x = Fin 0 \<or> x = NaN"

subsection \<open>Cards\<close>

datatype CardType = twitter | youtube | github | coffee | mastodon | ios

text \<open>
  \<open>interface CardData\<close>. The field \<open>id\<close> is named \<open>id_card\<close> here. An optional field is
  an \<open>option\<close>, \<open>None\<close> when the object has no such property. The second version's
  interface is the first one's with two more fields, so it is a record extension; the
  handlers of the first version are typed over the record scheme, as the object spread
  \<open>{...card}\<close> copies every property an object has.
\<close>

record CardData_v1 =
  id_card :: string
  type :: CardType
  title :: string
  subtitle :: "string option"
  buttonText :: "string option"
  buttonUrl :: "string option"
  imageUrl :: "string option"
  width :: "jsnum option"
  height :: "jsnum option"

record CardData = CardData_v1 +
  gridColumn :: "jsnum option"
  gridRow :: "jsnum option"

record GridSize =
  columns :: int
  gap :: int

text \<open>The initial value of the \<open>cards\<close> state, lines 228 to 242 and 666 to 681.\<close>

definition initialCards_v1 :: "CardData_v1 list" where
  "initialCards_v1 =
    [\<lparr>id_card = ''1'', type = twitter, title = ''My Tweeet's'', subtitle = None,
      buttonText = Some ''Follow'', buttonUrl = None, imageUrl = None,
      width = None, height = None\<rparr>,
     \<lparr>id_card = ''2'', type = youtube, title = ''Some Tutorials'', subtitle = None,
      buttonText = Some ''Subscribe'', buttonUrl = None, imageUrl = None,
      width = None, height = None\<rparr>,
     \<lparr>id_card = ''3'', type = github, title = ''Github'', subtitle = None,
      buttonText = None, buttonUrl = None, imageUrl = None,
      width = None, height = None\<rparr>,
     \<lparr>id_card = ''4'', type = coffee, title = ''Buy me a Coffee'', subtitle = None,
      buttonText = Some ''Support'', buttonUrl = None, imageUrl = None,
      width = None, height = None\<rparr>,
     \<lparr>id_card = ''5'', type = mastodon, title = ''Ivory for Mastodon'',
      subtitle = Some ''by Tapbots'', buttonText = Some ''Get'', buttonUrl = None,
      imageUrl = Some ''/placeholder.svg?height=80&width=150'',
      width = None, height = None\<rparr>,
     \<lparr>id_card = ''6'', type = ios, title = ''iOS UI Kit'', subtitle = None,
      buttonText = None, buttonUrl = None, imageUrl = None,
      width = None, height = None\<rparr>]"

definition initialCards :: "CardData list" where
  "initialCards =
    [\<lparr>id_card = ''1'', type = twitter, title = ''My Tweeet's'', subtitle = None,
      buttonText = Some ''Follow'', buttonUrl = None, imageUrl = None,
      width = None, height = None, gridColumn = Some (Fin 1), gridRow = None\<rparr>,
     \<lparr>id_card = ''2'', type = youtube, title = ''Some Tutorials'', subtitle = None,
      buttonText = Some ''Subscribe'', buttonUrl = None, imageUrl = None,
      width = None, height = None, gridColumn = Some (Fin 1), gridRow = None\<rparr>,
     \<lparr>id_card = ''3'', type = github, title = ''Github'', subtitle = None,
      buttonText = None, buttonUrl = None, imageUrl = None,
      width = None, height = None, gridColumn = Some (Fin 1), gridRow = None\<rparr>,
     \<lparr>id_card = ''4'', type = coffee, title = ''Buy me a Coffee'', subtitle = None,
      buttonText = Some ''Support'', buttonUrl = None, imageUrl = None,
      width = None, height = None, gridColumn = Some (Fin 1), gridRow = None\<rparr>,
     \<lparr>id_card = ''5'', type = mastodon, title = ''Ivory for Mastodon'',
      subtitle = Some ''by Tapbots'', buttonText = Some ''Get'', buttonUrl = None,
      imageUrl = Some ''/placeholder.svg?height=80&width=150'',
      width = None, height = None, gridColumn = Some (Fin 1), gridRow = None\<rparr>,
     \<lparr>id_card = ''6'', type = ios, title = ''iOS UI Kit'', subtitle = None,
      buttonText = None, buttonUrl = None, imageUrl = None,
      width = None, height = None, gridColumn = Some (Fin 1), gridRow = None\<rparr>]"

subsection \<open>The grid span of a resized card\<close>

text \<open>
  \<open>calculateGridSpan\<close>, lines 419 to 436. Its inputs are the \<open>gridSize\<close> property, whose
  two fields hold integers, the width passed as argument, an \<open>offsetWidth\<close>, and the
  \<open>offsetWidth\<close> of the card's parent element, read from the document: \<open>None\<close> when the
  reference or the parent is missing, else a pixel count, which the document never gives
  negative. \<open>x || 0\<close> is 0 for a missing \<open>x\<close>. All arithmetic is that of doubles.
\<close>

definition calculateGridSpan :: "GridSize \<Rightarrow> nat option \<Rightarrow> int \<Rightarrow> jsnum" where
  "calculateGridSpan gridSize parentWidth w =
     (let cols = num_of_int (columns gridSize); gp = num_of_int (gap gridSize) in
      if falsy cols then Fin 1
      else
        let containerWidth = (case parentWidth of None \<Rightarrow> 0 | Some n \<Rightarrow> int n) in
        if containerWidth = 0 then Fin 1
        else
          let singleColWidth =
                js_div (js_sub (num_of_int containerWidth) (js_mul gp (js_sub cols (Fin 1))))
                  cols
          in js_max (Fin 1)
               (js_min cols
                  (js_ceil (js_div (js_add (num_of_int w) gp) (js_add singleColWidth gp)))))"

subsection \<open>The card store\<close>

text \<open>\<open>handleDeleteCard\<close>, lines 245 to 247 and 684 to 686.\<close>

definition handleDeleteCard_v1 ::
  "string \<Rightarrow> 'a CardData_v1_scheme list \<Rightarrow> 'a CardData_v1_scheme list" where
  "handleDeleteCard_v1 i cards = filter (\<lambda>card. id_card card \<noteq> i) cards"

definition handleDeleteCard :: "string \<Rightarrow> CardData list \<Rightarrow> CardData list" where
  "handleDeleteCard i cards = filter (\<lambda>card. id_card card \<noteq> i) cards"

text \<open>\<open>handleResizeCard\<close>, lines 250 to 254 and 689 to 693.\<close>

definition handleResizeCard_v1 ::
  "string \<Rightarrow> jsnum \<Rightarrow> jsnum \<Rightarrow> 'a CardData_v1_scheme list \<Rightarrow> 'a CardData_v1_scheme list" where
  "handleResizeCard_v1 i w h cards =
     map (\<lambda>card. if id_card card = i then card\<lparr>width := Some w, height := Some h\<rparr> else card)
       cards"

definition handleResizeCard ::
  "string \<Rightarrow> jsnum \<Rightarrow> jsnum \<Rightarrow> jsnum \<Rightarrow> CardData list \<Rightarrow> CardData list" where
  "handleResizeCard i w h g cards =
     map (\<lambda>card. if id_card card = i
                  then card\<lparr>width := Some w, height := Some h, gridColumn := Some g\<rparr>
                  else card)
       cards"

text \<open>
  \<open>generateId\<close>, lines 225 and 635: \<open>Math.random().toString(36).substring(2, 9)\<close>. The
  random draw comes from outside the program; the model takes its base 36 text, such as
  \<open>0.i\<close> for the draw 0.5, as the argument \<open>r\<close>. \<open>substring(2, 9)\<close> keeps the characters
  at positions 2 to 8 that the text has.
\<close>

definition generateId :: "string \<Rightarrow> string" where
  "generateId r = take (9 - 2) (drop 2 r)"

text \<open>\<open>handleDuplicateCard\<close>, lines 257 to 268 and 696 to 707.\<close>

definition handleDuplicateCard_v1 ::
  "string \<Rightarrow> 'a CardData_v1_scheme list \<Rightarrow> 'a CardData_v1_scheme list" where
  "handleDuplicateCard_v1 r cards =
     (case cards of
        [] \<Rightarrow> cards
      | firstCard # _ \<Rightarrow>
          cards @ [firstCard\<lparr>id_card := generateId r, title := title firstCard @ '' (Copy)''\<rparr>])"

definition handleDuplicateCard :: "string \<Rightarrow> CardData list \<Rightarrow> CardData list" where
  "handleDuplicateCard r cards =
     (case cards of
        [] \<Rightarrow> cards
      | firstCard # _ \<Rightarrow>
          cards @ [firstCard\<lparr>id_card := generateId r, title := title firstCard @ '' (Copy)''\<rparr>])"

subsection \<open>Reordering on drop\<close>

text \<open>\<open>Array.prototype.findIndex\<close>: the first index whose item passes, or -1.\<close>

fun findIndex :: "('a \<Rightarrow> bool) \<Rightarrow> 'a list \<Rightarrow> int" where
  "findIndex P [] = -1"
| "findIndex P (x # xs) =
     (if P x then 0 else (let k = findIndex P xs in if k < 0 then -1 else k + 1))"

text \<open>
  The start position \<open>Array.prototype.splice\<close> works at: a negative start counts from the
  end, and the result is kept within the array.
\<close>

definition splice_start :: "nat \<Rightarrow> int \<Rightarrow> nat" where
  "splice_start len start =
     (if start < 0 then nat (max (int len + start) 0) else min (nat start) len)"

text \<open>
  \<open>arrayMove\<close> is imported from the package \<open>@dnd-kit/sortable\<close> (lines 8 and 358); the
  repository has no copy of it. The definition follows the package's published function,
  \<^verbatim>\<open>
  const newArray = array.slice();
  newArray.splice(to < 0 ? newArray.length + to : to, 0, newArray.splice(from, 1)[0]);
  return newArray;
  \<close>
  The arguments of the outer \<open>splice\<close> are evaluated from left to right: the insert
  position is computed with the length before the removal, then \<open>splice(from, 1)\<close> removes
  at most one item, then the outer call inserts at the position clipped to the shorter
  array. When nothing was removed the item inserted is \<open>undefined\<close>: the array returned
  is a list of optional items, \<open>None\<close> standing for \<open>undefined\<close>.
\<close>

definition arrayMove :: "'a list \<Rightarrow> int \<Rightarrow> int \<Rightarrow> 'a option list" where
  "arrayMove array from to =
     (let target = (if to < 0 then int (length array) + to else to);
          a = splice_start (length array) from;
          removed = take 1 (drop a array);
          rest = take a array @ drop (a + 1) array;
          item = (case removed of [] \<Rightarrow> None | x # _ \<Rightarrow> Some x);
          b = splice_start (length rest) target
      in map Some (take b rest) @ [item] @ map Some (drop b rest))"

text \<open>
  \<open>handleDragEnd\<close>, lines 721 to 732. \<open>active\<close> is the id of the dragged item, \<open>over\<close> the
  id of the drop target, \<open>None\<close> when the event's \<open>over\<close> is null. The result is the next
  value of the \<open>cards\<close> state; without a call of \<open>setCards\<close> that is the old one.
\<close>

definition handleDragEnd :: "string \<Rightarrow> string option \<Rightarrow> CardData list \<Rightarrow> CardData option list" where
  "handleDragEnd active over items =
     (case over of
        None \<Rightarrow> map Some items
      | Some overId \<Rightarrow>
          if active \<noteq> overId then
            let oldIndex = findIndex (\<lambda>item. id_card item = active) items;
                newIndex = findIndex (\<lambda>item. id_card item = overId) items
            in arrayMove items oldIndex newIndex
          else map Some items)"

text \<open>
  \<open>handleDragEnd\<close> of the first version, lines 284 to 295, reads \<open>over.id\<close> with no test of
  \<open>over\<close>: a null \<open>over\<close> raises a \<open>TypeError\<close>.
\<close>

datatype error = TypeError

definition handleDragEnd_v1 ::
  "string \<Rightarrow> string option \<Rightarrow> 'a CardData_v1_scheme list
     \<Rightarrow> error + 'a CardData_v1_scheme option list" where
  "handleDragEnd_v1 active over items =
     (case over of
        None \<Rightarrow> Inl TypeError
      | Some overId \<Rightarrow>
          if active \<noteq> overId then
            let oldIndex = findIndex (\<lambda>item. id_card item = active) items;
                newIndex = findIndex (\<lambda>item. id_card item = overId) items
            in Inr (arrayMove items oldIndex newIndex)
          else Inr (map Some items))"

subsection \<open>Committing a resize\<close>

text \<open>
  What \<open>handleMouseUp\<close> reads of the card's element: its \<open>offsetWidth\<close>, its
  \<open>offsetHeight\<close> and the \<open>offsetWidth\<close> of its parent element, if it has one.
\<close>

record Element =
  offsetWidth :: nat
  offsetHeight :: nat
  parentElement :: "nat option"

text \<open>
  \<open>handleMouseUp\<close>, lines 472 to 489, with \<open>onResize\<close> bound to \<open>handleResizeCard\<close>
  (line 765). \<open>current\<close> is \<open>cardRef.current\<close>, \<open>None\<close> when it is null. The flag
  \<open>isResizing\<close> it clears is local to the card and not part of the store.
\<close>

definition handleMouseUp ::
  "GridSize \<Rightarrow> string \<Rightarrow> Element option \<Rightarrow> CardData list \<Rightarrow> CardData list" where
  "handleMouseUp gridSize cardId current cards =
     (case current of
        None \<Rightarrow> cards
      | Some el \<Rightarrow>
          let newWidth = int (offsetWidth el);
              newHeight = int (offsetHeight el);
              gridColumn = calculateGridSpan gridSize (parentElement el) newWidth
          in handleResizeCard cardId (num_of_int newWidth) (num_of_int newHeight)
               gridColumn cards)"

subsection \<open>The page as a state machine\<close>

text \<open>\<open>updateGridSize\<close>, lines 645 to 653, as a function of \<open>window.innerWidth\<close>.\<close>

definition updateGridSize :: "int \<Rightarrow> GridSize" where
  "updateGridSize innerWidth =
     (if innerWidth \<ge> 1024 then \<lparr>columns = 3, gap = 16\<rparr>
      else if innerWidth \<ge> 640 then \<lparr>columns = 2, gap = 16\<rparr>
      else \<lparr>columns = 1, gap = 16\<rparr>)"

text \<open>The two pieces of state of \<open>ProfilePage\<close>, lines 638 to 641 and 666 to 681.\<close>

record ProfilePage =
  cards_state :: "CardData list"
  gridSize_state :: GridSize

definition initialPage :: ProfilePage where
  "initialPage = \<lparr>cards_state = initialCards, gridSize_state = \<lparr>columns = 3, gap = 16\<rparr>\<rparr>"

text \<open>
  The array a drag-end leaves in the state, read as a list of cards: there is none when
  an entry is \<open>undefined\<close>, and the next rendering raises on \<open>card.id\<close>.
\<close>

fun items_of :: "'a option list \<Rightarrow> 'a list option" where
  "items_of [] = Some []"
| "items_of (None # r) = None"
| "items_of (Some x # r) = map_option ((#) x) (items_of r)"

text \<open>
  The events the page handles: a click on a card's delete button, the end of a resize
  gesture on a card, a click on the floating button, together with the text of the random
  draw, a drop, and a resize of the window (also the call of \<open>updateGridSize\<close> on mount).
\<close>

datatype event =
    Delete string
  | MouseUp string "Element option"
  | Duplicate string
  | DragEnd string "string option"
  | WindowResize int

fun step :: "event \<Rightarrow> ProfilePage \<Rightarrow> ProfilePage option" where
  "step (Delete i) s = Some (s\<lparr>cards_state := handleDeleteCard i (cards_state s)\<rparr>)"
| "step (MouseUp i current) s =
     Some (s\<lparr>cards_state := handleMouseUp (gridSize_state s) i current (cards_state s)\<rparr>)"
| "step (Duplicate r) s = Some (s\<lparr>cards_state := handleDuplicateCard r (cards_state s)\<rparr>)"
| "step (DragEnd active over) s =
     (case items_of (handleDragEnd active over (cards_state s)) of
        None \<Rightarrow> None
      | Some items \<Rightarrow> Some (s\<lparr>cards_state := items\<rparr>))"
| "step (WindowResize innerWidth) s = Some (s\<lparr>gridSize_state := updateGridSize innerWidth\<rparr>)"

fun run :: "event list \<Rightarrow> ProfilePage \<Rightarrow> ProfilePage option" where
  "run [] s = Some s"
| "run (e # es) s = (case step e s of None \<Rightarrow> None | Some s' \<Rightarrow> run es s')"

text \<open>
  A number is a span of a grid of \<open>n\<close> columns: a whole number from 1 to \<open>n\<close>. A card's
  span is in range when its \<open>gridColumn\<close> is present and such a number.
\<close>

definition is_span :: "int \<Rightarrow> jsnum \<Rightarrow> bool" where
  "is_span n x =
     (case x of
        Fin q \<Rightarrow> of_int \<lfloor>q\<rfloor> = q \<and> 1 \<le> q \<and> q \<le> of_int n
      | _ \<Rightarrow> False)"

definition span_in_range :: "int \<Rightarrow> CardData \<Rightarrow> bool" where
  "span_in_range n item =
     (case gridColumn item of Some x \<Rightarrow> is_span n x | None \<Rightarrow> False)"

subsection \<open>The span calculation as the specification words it\<close>

text \<open>
  Section 4.2 of the specification, step by step, for comparison with
  \<open>calculateGridSpan\<close>: span 1 if \<open>columnCount\<close> or \<open>containerPixelWidth\<close> is 0; else the
  single column width, the raw span as a ceiling, and the raw span clamped to the
  interval from 1 to \<open>columnCount\<close>.
\<close>

definition clamp :: "int \<Rightarrow> int \<Rightarrow> int \<Rightarrow> int" where
  "clamp lo hi x = (if x < lo then lo else if hi < x then hi else x)"

definition spec_gridSpan :: "int \<Rightarrow> int \<Rightarrow> int \<Rightarrow> int \<Rightarrow> int" where
  "spec_gridSpan measuredPixelWidth columnCount gapPixels containerPixelWidth =
     (if columnCount = 0 \<or> containerPixelWidth = 0 then 1
      else
        let singleColumnWidth =
              (of_int containerPixelWidth - of_int gapPixels * (of_int columnCount - 1) :: rat)
                / of_int columnCount;
            rawSpan = \<lceil>(of_int measuredPixelWidth + of_int gapPixels)
                         / (singleColumnWidth + of_int gapPixels)\<rceil>
        in clamp 1 columnCount rawSpan)"

subsection \<open>Predicates on the page and the two card types\<close>

text \<open>The container width \<open>calculateGridSpan\<close> works with: 0 when there is no parent.\<close>

abbreviation containerWidth_of :: "nat option \<Rightarrow> int" where
  "containerWidth_of p \<equiv> (case p of None \<Rightarrow> 0 | Some n \<Rightarrow> int n)"

text \<open>
  The grid configurations the page ever holds: the initial one and the three that
  \<open>updateGridSize\<close> sets. And the pixel counts the document gives for an \<open>offsetWidth\<close>,
  an attribute of the 32 bit type \<open>long\<close> that is never negative.
\<close>

definition band_gridSize :: "GridSize \<Rightarrow> bool" where
  "band_gridSize gs \<longleftrightarrow> 1 \<le> columns gs \<and> columns gs \<le> 3 \<and> gap gs = 16"

definition pixels :: "int \<Rightarrow> bool" where
  "pixels n \<longleftrightarrow> 0 \<le> n \<and> n < 2 ^ 31"

text \<open>Every card's span fits the current column count.\<close>

definition spans_fit :: "ProfilePage \<Rightarrow> bool" where
  "spans_fit s = list_all (span_in_range (columns (gridSize_state s))) (cards_state s)"

text \<open>A card of the first version read as a card of the second: it has neither span.\<close>

definition toV2 :: "CardData_v1 \<Rightarrow> CardData" where
  "toV2 c = \<lparr>id_card = id_card c, type = type c, title = title c, subtitle = subtitle c,
     buttonText = buttonText c, buttonUrl = buttonUrl c, imageUrl = imageUrl c,
     width = width c, height = height c, gridColumn = None, gridRow = None\<rparr>"

section \<open>Properties of rounding\<close>

text \<open>
  \<open>log2floor\<close> and \<open>exponent\<close> find the binary exponent; the nearest integer is the one
  less than half away; and an integer of fewer than 54 bits times a power of two from
  \<open>2 powi (- 1074)\<close> on is a double: rounding leaves it as it is and never carries another
  number across it.
\<close>

lemma log2floor_bounds:
  "0 < n \<Longrightarrow> 0 \<le> log2floor n \<and> 2 ^ nat (log2floor n) \<le> n \<and> n < 2 ^ nat (log2floor n + 1)"
proof (induction n rule: log2floor.induct)
  case (1 n)
  show ?case
  proof (cases "n < 2")
    case True
    then show ?thesis using "1.prems" by (simp add: log2floor.simps)
  next
    case False
    then have pos: "0 < n div 2" by simp
    have ih: "0 \<le> log2floor (n div 2) \<and> 2 ^ nat (log2floor (n div 2)) \<le> n div 2 \<and>
              n div 2 < 2 ^ nat (log2floor (n div 2) + 1)"
      using "1.IH" [OF False pos] .
    have eq: "log2floor n = 1 + log2floor (n div 2)"
      using False by (simp add: log2floor.simps)
    have n1: "nat (1 + log2floor (n div 2)) = Suc (nat (log2floor (n div 2)))"
      using ih by arith
    have n2: "nat (1 + log2floor (n div 2) + 1) = Suc (Suc (nat (log2floor (n div 2))))"
      using ih by arith
    define t :: int where "t = 2 ^ nat (log2floor (n div 2))"
    have n3: "nat (log2floor (n div 2) + 1) = Suc (nat (log2floor (n div 2)))"
      using ih by arith
    have "t \<le> n div 2" "n div 2 < 2 * t"
      using ih by (simp_all add: t_def n3)
    then have "2 * t \<le> n" "n < 4 * t"
      by linarith+
    then show ?thesis
      unfolding eq n1 n2 using ih by (simp add: t_def)
  qed
qed

lemma pow2_powi: "0 \<le> k \<Longrightarrow> (2::rat) powi k = of_int (2 ^ nat k)"
  by (simp add: power_int_def)

lemma exponent_le:
  assumes "x \<noteq> 0"
  shows "2 powi (exponent x) \<le> \<bar>x\<bar>"
proof -
  obtain p q where pq: "quotient_of \<bar>x\<bar> = (p, q)"
    by (cases "quotient_of \<bar>x\<bar>")
  have q: "0 < q" using pq by (rule quotient_of_denom_pos)
  have x: "\<bar>x\<bar> = of_int p / of_int q" using pq by (rule quotient_of_div)
  have p: "0 < p"
  proof -
    have "0 < \<bar>x\<bar>" using assms by simp
    then show ?thesis using q x by (simp add: zero_less_divide_iff)
  qed
  define a where "a = log2floor p"
  define b where "b = log2floor q"
  have A: "0 \<le> a" "2 ^ nat a \<le> p" using log2floor_bounds [OF p] by (simp_all add: a_def)
  have B: "0 \<le> b" "q < 2 ^ nat (b + 1)" using log2floor_bounds [OF q] by (simp_all add: b_def)
  have ex: "exponent x = (if 2 powi (a - b) \<le> \<bar>x\<bar> then a - b else a - b - 1)"
    by (simp add: exponent_def pq a_def b_def Let_def)
  show ?thesis
  proof (cases "2 powi (a - b) \<le> \<bar>x\<bar>")
    case True
    then show ?thesis by (simp add: ex)
  next
    case False
    have "(2::rat) powi (a - b - 1) = 2 powi a / 2 powi (b + 1)"
      by (simp add: power_int_diff [symmetric] algebra_simps)
    also have "\<dots> = of_int (2 ^ nat a) / of_int (2 ^ nat (b + 1))"
      using A(1) B(1) by (simp add: pow2_powi)
    also have "\<dots> \<le> of_int p / of_int (2 ^ nat (b + 1))"
      using A(2) by (intro divide_right_mono) (simp_all del: of_int_power)
    also have "\<dots> \<le> of_int p / of_int q"
      using B(2) p q by (intro divide_left_mono) (simp_all del: of_int_power)
    finally show ?thesis using False by (simp add: ex x)
  qed
qed

lemma round_half_even_lower: "of_int m \<le> x \<Longrightarrow> m \<le> round_half_even x"
proof -
  assume "of_int m \<le> x"
  then have "m \<le> \<lfloor>x\<rfloor>" by (simp add: le_floor_iff)
  then show ?thesis by (simp add: round_half_even_def Let_def)
qed

lemma round_half_even_upper: "x \<le> of_int m \<Longrightarrow> round_half_even x \<le> m"
proof -
  assume a: "x \<le> of_int m"
  have f: "\<lfloor>x\<rfloor> \<le> m" using a by (simp add: floor_le_iff) 
  show ?thesis
  proof (cases "x = of_int \<lfloor>x\<rfloor>")
    case True
    then have "x - of_int \<lfloor>x\<rfloor> = 0" by simp
    then show ?thesis using f by (simp add: round_half_even_def Let_def)
  next
    case False
    then have "of_int \<lfloor>x\<rfloor> < x" using of_int_floor_le [of x] by linarith
    then have "of_int \<lfloor>x\<rfloor> < (of_int m :: rat)" using a by linarith
    then have "\<lfloor>x\<rfloor> + 1 \<le> m" by simp
    then show ?thesis by (simp add: round_half_even_def Let_def)
  qed
qed

lemma round_half_even_of_int: "round_half_even (of_int m) = m"
  using round_half_even_lower [of m "of_int m"] round_half_even_upper [of "of_int m" m] by simp

lemma round_half_even_minus: "round_half_even (- x) = - round_half_even x"
proof (cases "x = of_int \<lfloor>x\<rfloor>")
  case True
  then obtain m where "x = of_int m" ..
  then show ?thesis
    using round_half_even_of_int [of m] round_half_even_of_int [of "- m"] by simp
next
  case False
  define f where "f = \<lfloor>x\<rfloor>"
  define r where "r = x - of_int f"
  have "of_int f \<le> x" "x < of_int f + 1" "x \<noteq> of_int f"
    using False floor_correct [of x] by (simp_all add: f_def)
  then have r: "0 < r" "r < 1"
    unfolding r_def by linarith+
  have fl: "\<lfloor>- x\<rfloor> = - f - 1"
    using r by (intro floor_unique) (auto simp: r_def)
  have r': "- x - of_int (- f - 1) = 1 - r"
    by (simp add: r_def)
  show ?thesis
    using r unfolding round_half_even_def Let_def fl r' f_def [symmetric] r_def [symmetric]
    by auto
qed

lemma powi_less_imp_less: "(2::rat) powi a < 2 powi b \<Longrightarrow> a < b"
proof (rule ccontr)
  assume l: "(2::rat) powi a < 2 powi b" and "\<not> a < b"
  then have "b \<le> a" by simp
  then have "(2::rat) powi b \<le> 2 powi a" by (intro power_int_increasing) simp_all
  then show False using l by simp
qed

lemma quantum_bound:
  assumes "\<bar>m\<bar> < 2 ^ 53" and "2 powi e \<le> \<bar>of_int m * (2::rat) powi j\<bar>"
  shows "e - 52 \<le> j"
proof -
  have "\<bar>of_int m * (2::rat) powi j\<bar> = of_int \<bar>m\<bar> * 2 powi j"
    by (simp add: abs_mult)
  also have "\<dots> < of_int (2 ^ 53) * 2 powi j"
    using assms(1) by (intro mult_strict_right_mono) (simp_all del: of_int_power)
  also have "\<dots> = 2 powi (53 + j)"
    by (simp add: power_int_add)
  finally have "(2::rat) powi e < 2 powi (53 + j)"
    using assms(2) by simp
  then have "e < 53 + j" by (rule powi_less_imp_less)
  then show ?thesis by simp
qed

lemma quotient_is_int:
  assumes "k \<le> j"
  shows "of_int m * (2::rat) powi j / 2 powi k = of_int (m * 2 ^ nat (j - k))"
proof -
  have "(2::rat) powi j / 2 powi k = 2 powi (j - k)"
    by (simp add: power_int_diff)
  also have "\<dots> = of_int (2 ^ nat (j - k))"
    using assms by (simp add: pow2_powi)
  finally have "of_int m * ((2::rat) powi j / 2 powi k) = of_int m * of_int (2 ^ nat (j - k))"
    by (simp only:)
  then show ?thesis by simp
qed

lemma exponent_minus: "exponent (- x) = exponent x"
  by (simp add: exponent_def)

lemma rnd_minus: "rnd (- x) = - rnd x"
  by (simp add: rnd_def exponent_minus round_half_even_minus Let_def)

lemma rnd_lower:
  assumes m: "\<bar>m\<bar> < 2 ^ 53" and j: "- 1074 \<le> j" and le: "of_int m * 2 powi j \<le> x"
  shows "of_int m * 2 powi j \<le> rnd x"
proof (cases "x = 0")
  case True
  then show ?thesis using le by (simp add: rnd_def)
next
  case False
  define e where "e = max (exponent x) (- 1022)"
  define u :: rat where "u = 2 powi (e - 52)"
  define r :: rat where "r = of_int m * 2 powi j"
  have u: "0 < u" by (simp add: u_def)
  have rnd: "rnd x = of_int (round_half_even (x / u)) * u"
    using False by (simp add: rnd_def e_def u_def Let_def)
  show ?thesis
  proof (cases "e - 52 \<le> j")
    case True
    have qz: "r / u = of_int (m * 2 ^ nat (j - (e - 52)))"
      unfolding r_def u_def using True by (rule quotient_is_int)
    moreover have "r / u \<le> x / u"
      using le u by (simp add: r_def divide_right_mono)
    ultimately have "m * 2 ^ nat (j - (e - 52)) \<le> round_half_even (x / u)"
      by (intro round_half_even_lower) simp
    then have "(of_int (m * 2 ^ nat (j - (e - 52))) :: rat) \<le> of_int (round_half_even (x / u))"
      by (simp only: of_int_le_iff)
    then have "r / u * u \<le> of_int (round_half_even (x / u)) * u"
      using u qz by (simp only: mult_right_mono less_imp_le)
    then show ?thesis
      using u by (simp add: rnd r_def)
  next
    case False
    then have ee: "e = exponent x" using j by (simp add: e_def max_def split: if_splits)
    have w: "2 powi e \<le> \<bar>x\<bar>"
      unfolding ee using \<open>x \<noteq> 0\<close> by (rule exponent_le)
    have small: "\<bar>r\<bar> < 2 powi e"
    proof (rule ccontr)
      assume "\<not> \<bar>r\<bar> < 2 powi e"
      then have "2 powi e \<le> \<bar>of_int m * (2::rat) powi j\<bar>" by (simp add: r_def)
      from quantum_bound [OF m this] False show False by simp
    qed
    have pos: "0 < x"
    proof (rule ccontr)
      assume "\<not> 0 < x"
      then have "x < 0" using \<open>x \<noteq> 0\<close> by simp
      then have "\<bar>x\<bar> \<le> \<bar>r\<bar>" using le by (simp add: r_def)
      then show False using small w by simp
    qed
    have "(2::rat) powi e / u = of_int (1 * 2 ^ nat (e - (e - 52)))"
      unfolding u_def using quotient_is_int [of "e - 52" e 1] by simp
    then have q52: "(2::rat) powi e / u = of_int (2 ^ 52)" by simp
    moreover have "2 powi e / u \<le> x / u"
      using w pos u by (simp add: divide_right_mono)
    ultimately have "2 ^ 52 \<le> round_half_even (x / u)"
      by (intro round_half_even_lower) simp
    then have "(of_int (2 ^ 52) :: rat) \<le> of_int (round_half_even (x / u))"
      by (simp only: of_int_le_iff)
    then have "2 powi e / u * u \<le> of_int (round_half_even (x / u)) * u"
      using u q52 by (simp only: mult_right_mono less_imp_le)
    then have "2 powi e \<le> rnd x"
      using u by (simp add: rnd)
    then show ?thesis using small by (simp add: r_def)
  qed
qed

lemma rnd_upper:
  assumes m: "\<bar>m\<bar> < 2 ^ 53" and j: "- 1074 \<le> j" and le: "x \<le> of_int m * 2 powi j"
  shows "rnd x \<le> of_int m * 2 powi j"
proof -
  have "of_int (- m) * 2 powi j \<le> rnd (- x)"
    using m j le by (intro rnd_lower) simp_all
  then show ?thesis by (simp add: rnd_minus)
qed

lemma rnd_exact:
  assumes "\<bar>m\<bar> < 2 ^ 53" and "- 1074 \<le> j"
  shows "rnd (of_int m * 2 powi j) = of_int m * 2 powi j"
  using rnd_lower [OF assms order_refl] rnd_upper [OF assms order_refl] by simp

lemma exponent_gt:
  assumes "x \<noteq> 0"
  shows "\<bar>x\<bar> < 2 powi (exponent x + 1)"
proof -
  obtain p q where pq: "quotient_of \<bar>x\<bar> = (p, q)"
    by (cases "quotient_of \<bar>x\<bar>")
  have q: "0 < q" using pq by (rule quotient_of_denom_pos)
  have x: "\<bar>x\<bar> = of_int p / of_int q" using pq by (rule quotient_of_div)
  have p: "0 < p"
  proof -
    have "0 < \<bar>x\<bar>" using assms by simp
    then show ?thesis using q x by (simp add: zero_less_divide_iff)
  qed
  define a where "a = log2floor p"
  define b where "b = log2floor q"
  have A: "0 \<le> a" "p < 2 ^ nat (a + 1)" using log2floor_bounds [OF p] by (simp_all add: a_def)
  have B: "0 \<le> b" "2 ^ nat b \<le> q" using log2floor_bounds [OF q] by (simp_all add: b_def)
  have ex: "exponent x = (if 2 powi (a - b) \<le> \<bar>x\<bar> then a - b else a - b - 1)"
    by (simp add: exponent_def pq a_def b_def Let_def)
  show ?thesis
  proof (cases "2 powi (a - b) \<le> \<bar>x\<bar>")
    case True
    have "of_int p / of_int q \<le> (of_int p :: rat) / of_int (2 ^ nat b)"
      using B(2) p q by (intro divide_left_mono) (simp_all del: of_int_power)
    also have "\<dots> < of_int (2 ^ nat (a + 1)) / of_int (2 ^ nat b)"
      using A(2) by (intro divide_strict_right_mono) (simp_all del: of_int_power)
    also have "\<dots> = 2 powi (a + 1) / 2 powi b"
      using A(1) B(1) by (simp add: pow2_powi)
    also have "\<dots> = 2 powi (a - b + 1)"
      by (simp add: power_int_diff [symmetric] algebra_simps)
    finally show ?thesis using True by (simp add: ex x)
  next
    case False
    then show ?thesis by (simp add: ex)
  qed
qed

lemma exponent_unique:
  assumes "2 powi e \<le> \<bar>x\<bar>" and "\<bar>x\<bar> < 2 powi (e + 1)"
  shows "exponent x = e"
proof -
  have "(0::rat) < 2 powi e" by simp
  then have "0 < \<bar>x\<bar>" using assms(1) by (rule less_le_trans)
  then have "x \<noteq> 0" by simp
  have "(2::rat) powi (exponent x) < 2 powi (e + 1)"
    using exponent_le [OF \<open>x \<noteq> 0\<close>] assms(2) by simp
  then have "exponent x < e + 1" by (rule powi_less_imp_less)
  moreover have "(2::rat) powi e < 2 powi (exponent x + 1)"
    using exponent_gt [OF \<open>x \<noteq> 0\<close>] assms(1) by simp
  then have "e < exponent x + 1" by (rule powi_less_imp_less)
  ultimately show ?thesis by simp
qed

lemma round_half_even_nearest:
  assumes "\<bar>x - of_int m\<bar> < 1 / 2"
  shows "round_half_even x = m"
proof -
  have b: "x - of_int m < 1 / 2" "of_int m - x < 1 / 2"
    using assms by linarith+
  show ?thesis
  proof (cases "of_int m \<le> x")
    case True
    have "of_int m \<le> x \<and> x < of_int m + 1" using True b by linarith
    then have f: "\<lfloor>x\<rfloor> = m" by (intro floor_unique) auto
    show ?thesis using b by (simp add: round_half_even_def f Let_def)
  next
    case False
    have "of_int (m - 1) \<le> x \<and> x < of_int (m - 1) + 1" using False b by simp
    then have f: "\<lfloor>x\<rfloor> = m - 1" by (intro floor_unique) auto
    have "1 / 2 < x - of_int (m - 1)" "\<not> x - of_int (m - 1) < 1 / 2" using b by simp_all
    then show ?thesis by (simp add: round_half_even_def f Let_def)
  qed
qed

lemma round_half_even_tie:
  assumes "x = of_int m + 1 / 2"
  shows "round_half_even x = (if even m then m else m + 1)"
proof -
  have "of_int m \<le> x \<and> x < of_int m + 1" using assms by simp
  then have f: "\<lfloor>x\<rfloor> = m" by (intro floor_unique) auto
  have r: "x - of_int m = 1 / 2" using assms by simp
  show ?thesis unfolding round_half_even_def Let_def f r by simp
qed

lemma rnd_eval:
  assumes "2 powi e \<le> \<bar>x\<bar>" and "\<bar>x\<bar> < 2 powi (e + 1)" and "- 1022 \<le> e"
    and "round_half_even (x / 2 powi (e - 52)) = m"
  shows "rnd x = of_int m * 2 powi (e - 52)"
proof -
  have "(0::rat) < 2 powi e" by simp
  then have "0 < \<bar>x\<bar>" using assms(1) by (rule less_le_trans)
  then have "x \<noteq> 0" by simp
  then show ?thesis
    using assms(3,4)
    by (simp add: rnd_def exponent_unique [OF assms(1,2)] Let_def max_def)
qed

lemma rnd_ge_int: "\<bar>m\<bar> < 2 ^ 53 \<Longrightarrow> of_int m \<le> x \<Longrightarrow> of_int m \<le> rnd x"
  using rnd_lower [of m 0 x] by simp

lemma rnd_le_int: "\<bar>m\<bar> < 2 ^ 53 \<Longrightarrow> x \<le> of_int m \<Longrightarrow> rnd x \<le> of_int m"
  using rnd_upper [of m 0 x] by simp

lemma rnd_int: "\<bar>m\<bar> < 2 ^ 53 \<Longrightarrow> rnd (of_int m) = of_int m"
  using rnd_exact [of m 0] by simp

lemma eighth: "of_int m * (2::rat) powi (- 3) = of_int m / 8"
  by (simp add: power_int_def power_divide)

lemma rnd_ge_eighths: "\<bar>m\<bar> < 2 ^ 53 \<Longrightarrow> of_int m / 8 \<le> x \<Longrightarrow> of_int m / 8 \<le> rnd x"
  using rnd_lower [of m "- 3" x] by (simp only: eighth)

lemma rnd_le_eighths: "\<bar>m\<bar> < 2 ^ 53 \<Longrightarrow> x \<le> of_int m / 8 \<Longrightarrow> rnd x \<le> of_int m / 8"
  using rnd_upper [of m "- 3" x] by (simp only: eighth)

lemma round_double_finite:
  assumes "\<bar>x\<bar> \<le> 2 ^ 1023"
  shows "round_double x = Fin (rnd x)"
proof -
  have "rnd x \<le> of_int 1 * 2 powi 1023"
    using assms by (intro rnd_upper) simp_all
  moreover have "of_int (- 1) * 2 powi 1023 \<le> rnd x"
    using assms by (intro rnd_lower) simp_all
  moreover have "(2::rat) ^ 1023 < 2 ^ 1024"
    by (rule power_strict_increasing) simp_all
  ultimately show ?thesis
    by (simp add: round_double_def Let_def)
qed

lemma round_double_int:
  assumes "\<bar>m\<bar> < 2 ^ 53"
  shows "round_double (of_int m) = Fin (of_int m)"
proof -
  have "(2::int) ^ 53 \<le> 2 ^ 1023" by (rule power_increasing) simp_all
  then have "\<bar>m\<bar> \<le> 2 ^ 1023" using assms by linarith
  then have "\<bar>of_int m :: rat\<bar> \<le> of_int (2 ^ 1023)"
    by (simp only: of_int_abs [symmetric] of_int_le_iff)
  then have "\<bar>of_int m :: rat\<bar> \<le> 2 ^ 1023" by (simp only: of_int_power of_int_numeral)
  from round_double_finite [OF this] rnd_int [OF assms] show ?thesis by (simp only:)
qed

lemma num_of_int_small: "\<bar>m\<bar> < 2 ^ 53 \<Longrightarrow> num_of_int m = Fin (of_int m)"
  by (simp add: num_of_int_def round_double_int)

text \<open>
  The divisor of \<open>calculateGridSpan\<close>, twice rounded, stays on the side of a multiple
  \<open>h\<close> of an eighth on which the exact divisor is, when that is at least a sixth away.
\<close>

lemma divisor_bounds:
  fixes y h :: rat
  assumes H: "0 \<le> H" "H < 2 ^ 40" and h: "h = of_int H / 8"
    and y: "- 11 \<le> y" "y \<le> 2 ^ 31"
  shows "5 \<le> rnd (rnd y + 16)"
    and "h \<le> y + 16 \<Longrightarrow> h \<le> rnd (rnd y + 16)"
    and "y + 16 \<le> h - 1 / 6 \<Longrightarrow> rnd (rnd y + 16) \<le> h - 1 / 8"
proof -
  have "of_int (- 11) \<le> rnd y"
    using y(1) by (intro rnd_ge_int) simp_all
  then have "of_int 5 \<le> rnd y + 16" by simp
  then have "of_int 5 \<le> rnd (rnd y + 16)"
    by (intro rnd_ge_int) simp_all
  then show "5 \<le> rnd (rnd y + 16)" by simp
next
  assume a: "h \<le> y + 16"
  have "of_int (H - 128) / 8 \<le> y" using a by (simp add: h)
  then have "of_int (H - 128) / 8 \<le> rnd y"
    using H by (intro rnd_ge_eighths) simp_all
  then have "of_int H / 8 \<le> rnd y + 16" by simp
  then have "of_int H / 8 \<le> rnd (rnd y + 16)"
    using H by (intro rnd_ge_eighths) simp_all
  then show "h \<le> rnd (rnd y + 16)" by (simp add: h)
next
  assume a: "y + 16 \<le> h - 1 / 6"
  have "y \<le> of_int (H - 129) / 8" using a by (simp add: h)
  then have "rnd y \<le> of_int (H - 129) / 8"
    using H by (intro rnd_le_eighths) simp_all
  then have "rnd y + 16 \<le> of_int (H - 1) / 8" by simp
  then have "rnd (rnd y + 16) \<le> of_int (H - 1) / 8"
    using H by (intro rnd_le_eighths) simp_all
  then show "rnd (rnd y + 16) \<le> h - 1 / 8" by (simp add: h diff_divide_distrib)
qed

text \<open>
  For one to three columns, a gap of 16 and pixel counts below \<open>2 ^ 31\<close>, the rounded
  quotient is at most 1, or at most 2, exactly when the exact quotient is.
\<close>

lemma quotient_rounding:
  fixes c C n k :: int and y :: rat
  assumes c: "1 \<le> c" "c \<le> 3" and C: "0 < C" "C < 2 ^ 31"
    and n: "16 \<le> n" "n < 2 ^ 32" and k: "k = 1 \<or> k = 2"
    and y: "y = of_int (C - 16 * (c - 1)) / of_int c"
  shows "rnd (of_int n / rnd (rnd y + 16)) \<le> of_int k \<longleftrightarrow> of_int n / (y + 16) \<le> of_int k"
proof -
  define D :: rat where "D = y + 16"
  define d where "d = rnd (rnd y + 16)"
  define h :: rat where "h = of_int n / of_int k"
  define H where "H = (if k = 1 then 8 * n else 4 * n)"
  have cpos: "(0::rat) < of_int c" using c by simp
  have kpos: "(0::rat) < of_int k" using k by auto
  have D: "D = of_int (C + 16) / of_int c"
    using c by (simp add: D_def y field_simps)
  have Dpos: "0 < D"
    using C cpos by (simp add: D zero_less_divide_iff)
  have H: "0 \<le> H" "H < 2 ^ 40" using n k by (auto simp: H_def)
  have hH: "h = of_int H / 8" using k by (auto simp: h_def H_def)
  have ylo: "- 11 \<le> y"
  proof -
    have "- 11 * c \<le> C - 16 * (c - 1)" using c C by auto
    then have "(of_int (- 11 * c) :: rat) \<le> of_int (C - 16 * (c - 1))"
      by (simp only: of_int_le_iff)
    then have "- 11 * of_int c \<le> (of_int (C - 16 * (c - 1)) :: rat)"
      by simp
    then show ?thesis using cpos by (simp only: y pos_le_divide_eq)
  qed
  have yhi: "y \<le> 2 ^ 31"
  proof -
    have "C - 16 * (c - 1) \<le> 2 ^ 31 * c" using c C by auto
    then have "(of_int (C - 16 * (c - 1)) :: rat) \<le> of_int (2 ^ 31 * c)"
      by (simp only: of_int_le_iff)
    then have "(of_int (C - 16 * (c - 1)) :: rat) \<le> 2 ^ 31 * of_int c"
      by simp
    then show ?thesis using cpos by (simp only: y pos_divide_le_eq)
  qed
  note db = divisor_bounds [OF H hH ylo yhi, folded d_def]
  have d5: "5 \<le> d" by (rule db(1))
  then have dpos: "0 < d" by simp
  have hD: "of_int n / D \<le> of_int k \<longleftrightarrow> h \<le> D"
    using Dpos kpos by (simp add: h_def field_simps)
  have hd: "of_int n / d \<le> of_int k \<longleftrightarrow> h \<le> d"
    using dpos kpos by (simp add: h_def field_simps)
  show ?thesis
  proof (cases "h \<le> D")
    case True
    then have "h \<le> d" using db(2) by (simp add: D_def)
    then have "of_int n / d \<le> of_int k" by (simp add: hd)
    then have "rnd (of_int n / d) \<le> of_int k"
      using k by (intro rnd_le_int) auto
    then show ?thesis using True hD by (simp add: d_def D_def)
  next
    case False
    then have "of_int (C + 16) / of_int c < of_int n / (of_int k :: rat)"
      by (simp add: D h_def)
    then have "(of_int (k * (C + 16)) :: rat) < of_int (c * n)"
      using cpos kpos by (simp add: field_simps)
    then have "k * (C + 16) < c * n" by (simp only: of_int_less_iff)
    then have "k * (C + 16) + 1 \<le> c * n" by simp
    then have "(of_int (k * (C + 16) + 1) :: rat) \<le> of_int (c * n)"
      by (simp only: of_int_le_iff)
    then have "(of_int (k * (C + 16) + 1) :: rat) / (of_int c * of_int k)
                 \<le> of_int (c * n) / (of_int c * of_int k)"
      using cpos kpos by (intro divide_right_mono) simp_all
    moreover have "D + 1 / (of_int c * of_int k) =
                     of_int (k * (C + 16) + 1) / (of_int c * of_int k)"
      using cpos kpos by (simp add: D field_simps)
    moreover have "h = of_int (c * n) / (of_int c * of_int k)"
      using cpos kpos by (simp add: h_def)
    ultimately have "D + 1 / (of_int c * of_int k) \<le> h"
      by (simp only:)
    moreover have "(1::rat) / 6 \<le> 1 / (of_int c * of_int k)"
    proof -
      have "c * k \<le> 6" using c k by auto
      then have "(of_int (c * k) :: rat) \<le> of_int 6" by (simp only: of_int_le_iff)
      then show ?thesis using cpos kpos by (simp add: field_simps)
    qed
    ultimately have "y + 16 \<le> h - 1 / 6" by (simp add: D_def)
    then have dle: "d \<le> h - 1 / 8" by (rule db(3))
    have hn: "h \<le> of_int n"
      using k n by (auto simp: h_def)
    define r :: rat where "r = of_int (k * 2 ^ 36 + 1) * 2 powi (- 36)"
    have r: "r = of_int k + 1 / 2 ^ 36"
      by (simp add: r_def power_int_def power_divide field_simps)
    have rpos: "0 \<le> r" using kpos by (simp add: r)
    have "r * d \<le> r * (h - 1 / 8)"
      using dle rpos by (rule mult_left_mono)
    also have "\<dots> \<le> of_int n"
    proof -
      have kh: "of_int k * h = (of_int n :: rat)" using kpos by (simp add: h_def)
      have h32: "h \<le> 2 ^ 32" using hn n by simp
      have k1: "(1::rat) \<le> of_int k" using k by auto
      have "r * (h - 1 / 8) = of_int n - of_int k / 8 + (h - 1 / 8) / 2 ^ 36"
        using kh by (simp add: r algebra_simps mult.commute)
      also have "\<dots> \<le> of_int n - 1 / 8 + 2 ^ 32 / 2 ^ 36"
        using h32 k1 by (intro add_mono diff_mono divide_right_mono) simp_all
      also have "\<dots> \<le> of_int n" by simp
      finally show ?thesis .
    qed
    finally have "of_int (k * 2 ^ 36 + 1) * 2 powi (- 36) \<le> of_int n / d"
      using dpos by (simp only: r_def pos_le_divide_eq)
    then have "of_int (k * 2 ^ 36 + 1) * 2 powi (- 36) \<le> rnd (of_int n / d)"
      using k by (intro rnd_lower) auto
    moreover have "(of_int k :: rat) < of_int (k * 2 ^ 36 + 1) * 2 powi (- 36)"
      using r by (simp add: r_def)
    ultimately have "\<not> rnd (of_int n / d) \<le> of_int k" by simp
    then show ?thesis using False hD by (simp add: d_def D_def)
  qed
qed

section \<open>Properties of the grid span\<close>

lemma round_double_small:
  assumes "\<bar>x\<bar> \<le> 2 ^ 32"
  shows "round_double x = Fin (rnd x)"
proof -
  have "(2::rat) ^ 32 \<le> 2 ^ 1023" by (rule power_increasing) simp_all
  then have "\<bar>x\<bar> \<le> 2 ^ 1023" using assms by (rule order_trans [rotated])
  then show ?thesis by (rule round_double_finite)
qed

lemma round_double_not_falsy:
  assumes "c \<noteq> 0"
  shows "\<not> falsy (num_of_int c)"
proof -
  have "of_int 1 \<le> rnd (of_int c) \<or> rnd (of_int c) \<le> of_int (- 1)"
  proof (cases "0 < c")
    case True
    then have "of_int 1 \<le> rnd (of_int c)" by (intro rnd_ge_int) simp_all
    then show ?thesis ..
  next
    case False
    then have "c \<le> - 1" using assms by simp
    then have "(of_int c :: rat) \<le> of_int (- 1)" by (simp only: of_int_le_iff)
    then have "rnd (of_int c) \<le> of_int (- 1)" by (intro rnd_le_int) simp_all
    then show ?thesis ..
  qed
  then have "rnd (of_int c) \<noteq> 0" by auto
  then show ?thesis
    by (simp add: falsy_def num_of_int_def round_double_def Let_def)
qed

lemma falsy_num_of_int: "falsy (num_of_int c) \<longleftrightarrow> c = 0"
proof (cases "c = 0")
  case True
  have "rnd 0 = 0" by (simp add: rnd_def)
  then have "num_of_int 0 = Fin 0"
    by (simp add: num_of_int_def round_double_def Let_def)
  then show ?thesis using True by (simp add: falsy_def)
next
  case False
  then show ?thesis using round_double_not_falsy by simp
qed

lemma js_add_int:
  assumes "\<bar>a + b\<bar> < 2 ^ 53"
  shows "js_add (Fin (of_int a)) (Fin (of_int b)) = Fin (of_int (a + b))"
proof -
  have "js_add (Fin (of_int a)) (Fin (of_int b)) = round_double (of_int (a + b))"
    by simp
  then show ?thesis by (simp only: round_double_int [OF assms])
qed

lemma js_sub_int:
  assumes "\<bar>a - b\<bar> < 2 ^ 53"
  shows "js_sub (Fin (of_int a)) (Fin (of_int b)) = Fin (of_int (a - b))"
proof -
  have "js_sub (Fin (of_int a)) (Fin (of_int b)) = round_double (of_int (a - b))"
    by (simp add: js_sub_def)
  then show ?thesis by (simp only: round_double_int [OF assms])
qed

lemma js_mul_int:
  assumes "\<bar>a * b\<bar> < 2 ^ 53"
  shows "js_mul (Fin (of_int a)) (Fin (of_int b)) = Fin (of_int (a * b))"
proof -
  have "js_mul (Fin (of_int a)) (Fin (of_int b)) = round_double (of_int (a * b))"
    by simp
  then show ?thesis by (simp only: round_double_int [OF assms])
qed

lemma column_width_bounds:
  fixes c C :: int
  assumes "1 \<le> c" "c \<le> 3" "0 < C" "C < 2 ^ 31"
  shows "- 11 \<le> (of_int (C - 16 * (c - 1)) / of_int c :: rat)"
    and "(of_int (C - 16 * (c - 1)) / of_int c :: rat) \<le> 2 ^ 31"
proof -
  have cpos: "(0::rat) < of_int c" using assms by simp
  have "- 11 * c \<le> C - 16 * (c - 1)" using assms by auto
  then have "(of_int (- 11 * c) :: rat) \<le> of_int (C - 16 * (c - 1))"
    by (simp only: of_int_le_iff)
  then have "- 11 * of_int c \<le> (of_int (C - 16 * (c - 1)) :: rat)"
    by simp
  then show "- 11 \<le> (of_int (C - 16 * (c - 1)) / of_int c :: rat)"
    using cpos by (simp only: pos_le_divide_eq)
  have "C - 16 * (c - 1) \<le> 2 ^ 31 * c" using assms by auto
  then have "(of_int (C - 16 * (c - 1)) :: rat) \<le> of_int (2 ^ 31 * c)"
    by (simp only: of_int_le_iff)
  then have "(of_int (C - 16 * (c - 1)) :: rat) \<le> 2 ^ 31 * of_int c"
    by simp
  then show "(of_int (C - 16 * (c - 1)) / of_int c :: rat) \<le> 2 ^ 31"
    using cpos by (simp only: pos_divide_le_eq)
qed

text \<open>
  On such inputs every intermediate result is finite, and the span is the clamped ceiling
  of the rounded quotient.
\<close>

lemma calculateGridSpan_band:
  assumes gs: "band_gridSize gs" and C0: "containerWidth_of p \<noteq> 0"
    and C: "pixels (containerWidth_of p)" and w: "pixels w"
  shows "calculateGridSpan gs p w =
           Fin (of_int (max 1 (min (columns gs)
             \<lceil>rnd (of_int (w + 16)
                  / rnd (rnd (of_int (containerWidth_of p - 16 * (columns gs - 1))
                               / of_int (columns gs)) + 16))\<rceil>)))"
proof -
  define c where "c = columns gs"
  define C where "C = containerWidth_of p"
  define y :: rat where "y = of_int (C - 16 * (c - 1)) / of_int c"
  define s where "s = rnd y"
  define d where "d = rnd (s + 16)"
  define q where "q = rnd (of_int (w + 16) / d)"
  have c: "1 \<le> c" "c \<le> 3" and g: "gap gs = 16"
    using gs by (simp_all add: band_gridSize_def c_def)
  have Cb: "0 < C" "C < 2 ^ 31"
    using C0 C by (simp_all add: pixels_def C_def)
  have wb: "0 \<le> w" "w < 2 ^ 31"
    using w by (simp_all add: pixels_def)
  have cols: "num_of_int c = Fin (of_int c)"
    using c by (intro num_of_int_small) simp
  have gp: "num_of_int 16 = Fin (of_int 16)"
    by (intro num_of_int_small) simp
  have nf: "\<not> falsy (num_of_int c)"
    using c by (simp add: falsy_num_of_int)
  have c1: "js_sub (Fin (of_int c)) (Fin 1) = Fin (of_int (c - 1))"
    using c js_sub_int [of c 1] by simp
  have m: "js_mul (Fin (of_int 16)) (Fin (of_int (c - 1))) = Fin (of_int (16 * (c - 1)))"
    using c by (intro js_mul_int) simp
  have Cn: "num_of_int C = Fin (of_int C)"
    using Cb by (intro num_of_int_small) simp
  have A: "js_sub (Fin (of_int C)) (Fin (of_int (16 * (c - 1)))) = Fin (of_int (C - 16 * (c - 1)))"
    using c Cb by (intro js_sub_int) simp
  have yb: "- 11 \<le> y" "y \<le> 2 ^ 31"
    unfolding y_def using c Cb by (rule column_width_bounds)+
  have "\<bar>y\<bar> \<le> 2 ^ 32" using yb by simp
  then have S: "js_div (Fin (of_int (C - 16 * (c - 1)))) (Fin (of_int c)) = Fin s"
    using c by (simp add: round_double_small y_def s_def)
  have sb: "- 11 \<le> s" "s \<le> 2 ^ 31"
  proof -
    have "of_int (- 11) \<le> rnd y" using yb(1) by (intro rnd_ge_int) simp_all
    then show "- 11 \<le> s" by (simp add: s_def)
    have "rnd y \<le> of_int (2 ^ 31)" using yb(2) by (intro rnd_le_int) simp_all
    then show "s \<le> 2 ^ 31" by (simp add: s_def)
  qed
  have "\<bar>s + 16\<bar> \<le> 2 ^ 32" using sb by simp
  then have Dd: "js_add (Fin s) (Fin (of_int 16)) = Fin d"
    by (simp add: round_double_small d_def)
  have d5: "5 \<le> d"
  proof -
    have "of_int 5 \<le> rnd (s + 16)" using sb(1) by (intro rnd_ge_int) simp_all
    then show ?thesis by (simp add: d_def)
  qed
  have wn: "num_of_int w = Fin (of_int w)"
    using wb by (intro num_of_int_small) simp
  have N: "js_add (Fin (of_int w)) (Fin (of_int 16)) = Fin (of_int (w + 16))"
    using wb by (intro js_add_int) simp
  have "0 \<le> (of_int (w + 16) :: rat) / d"
    using wb d5 by (intro divide_nonneg_nonneg) simp_all
  moreover have "(of_int (w + 16) :: rat) / d \<le> of_int (w + 16)"
  proof -
    have "(of_int (w + 16) :: rat) / d \<le> of_int (w + 16) / 1"
      using wb d5 by (intro divide_left_mono) simp_all
    then show ?thesis by simp
  qed
  moreover have "(of_int (w + 16) :: rat) \<le> 2 ^ 32"
  proof -
    have "w + 16 \<le> 2 ^ 32" using wb by simp
    then have "(of_int (w + 16) :: rat) \<le> of_int (2 ^ 32)" by (simp only: of_int_le_iff)
    then show ?thesis by simp
  qed
  ultimately have "\<bar>(of_int (w + 16) :: rat) / d\<bar> \<le> 2 ^ 32" by simp
  then have Q: "js_div (Fin (of_int (w + 16))) (Fin d) = Fin q"
    using d5 by (simp add: round_double_small q_def)
  have Cne: "(C = 0) = False" using Cb by simp
  have nf': "falsy (Fin (of_int c)) = False" using nf by (simp add: cols)
  have "calculateGridSpan gs p w =
          (if falsy (num_of_int c) then Fin 1
           else if C = 0 then Fin 1
           else js_max (Fin 1)
                  (js_min (num_of_int c)
                     (js_ceil (js_div (js_add (num_of_int w) (num_of_int 16))
                        (js_add (js_div (js_sub (num_of_int C)
                                           (js_mul (num_of_int 16) (js_sub (num_of_int c) (Fin 1))))
                                   (num_of_int c))
                           (num_of_int 16))))))"
    by (simp only: calculateGridSpan_def Let_def c_def C_def g)
  also have "\<dots> = js_max (Fin 1) (js_min (Fin (of_int c)) (js_ceil (Fin q)))"
    by (simp only: nf' Cne if_False cols gp c1 m Cn A S Dd wn N Q)
  also have "\<dots> = Fin (of_int (max 1 (min c \<lceil>q\<rceil>)))"
    by (simp add: min_def max_def)
  finally show ?thesis
    by (simp only: q_def d_def s_def y_def c_def C_def)
qed

lemma is_span_of_int: "is_span n (Fin (of_int k)) \<longleftrightarrow> 1 \<le> k \<and> k \<le> n"
  by (simp add: is_span_def)

lemma calculateGridSpan_unmeasured:
  "columns gs = 0 \<or> containerWidth_of p = 0 \<Longrightarrow> calculateGridSpan gs p w = Fin 1"
  by (auto simp: calculateGridSpan_def Let_def falsy_num_of_int)

lemma calculateGridSpan_is_span:
  assumes "band_gridSize gs" and "pixels (containerWidth_of p)" and "pixels w"
  shows "is_span (columns gs) (calculateGridSpan gs p w)"
proof (cases "containerWidth_of p = 0")
  case True
  then have "calculateGridSpan gs p w = Fin (of_int 1)"
    by (simp add: calculateGridSpan_unmeasured)
  then show ?thesis
    using assms(1) by (simp only: is_span_of_int) (simp add: band_gridSize_def)
next
  case False
  show ?thesis
    using assms(1)
    by (simp only: calculateGridSpan_band [OF assms(1) False assms(2,3)] is_span_of_int)
       (simp add: band_gridSize_def)
qed

lemma clamp_eq:
  fixes a b c :: int
  assumes "1 \<le> c" "c \<le> 3" "a \<le> 1 \<longleftrightarrow> b \<le> 1" "a \<le> 2 \<longleftrightarrow> b \<le> 2"
  shows "max 1 (min c a) = clamp 1 c b"
  using assms by (auto simp: clamp_def min_def max_def)

lemma calculateGridSpan_exact:
  assumes gs: "band_gridSize gs" and Cp: "pixels (containerWidth_of p)" and w: "pixels w"
  shows "calculateGridSpan gs p w =
           Fin (of_int (spec_gridSpan w (columns gs) (gap gs) (containerWidth_of p)))"
proof (cases "containerWidth_of p = 0")
  case True
  then show ?thesis
    using calculateGridSpan_unmeasured [of gs p w] by (simp add: spec_gridSpan_def)
next
  case False
  define c where "c = columns gs"
  define C where "C = containerWidth_of p"
  define y :: rat where "y = of_int (C - 16 * (c - 1)) / of_int c"
  define q where "q = rnd (of_int (w + 16) / rnd (rnd y + 16))"
  define x where "x = (of_int (w + 16) :: rat) / (y + 16)"
  have c: "1 \<le> c" "c \<le> 3" and g: "gap gs = 16"
    using gs by (simp_all add: band_gridSize_def c_def)
  have Cb: "0 < C" "C < 2 ^ 31"
    using False Cp by (simp_all add: pixels_def C_def)
  have n: "16 \<le> w + 16" "w + 16 < 2 ^ 32"
    using w by (simp_all add: pixels_def)
  have k1: "q \<le> of_int 1 \<longleftrightarrow> x \<le> of_int 1"
    unfolding q_def x_def using c Cb n by (intro quotient_rounding) (simp_all add: y_def)
  have k2: "q \<le> of_int 2 \<longleftrightarrow> x \<le> of_int 2"
    unfolding q_def x_def using c Cb n by (intro quotient_rounding) (simp_all add: y_def)
  have ce: "max 1 (min c \<lceil>q\<rceil>) = clamp 1 c \<lceil>x\<rceil>"
    using c k1 k2 by (intro clamp_eq) (simp_all only: ceiling_le_iff)
  have "calculateGridSpan gs p w = Fin (of_int (max 1 (min c \<lceil>q\<rceil>)))"
    using calculateGridSpan_band [OF gs False Cp w]
    by (simp only: q_def y_def c_def C_def)
  moreover have "spec_gridSpan w (columns gs) (gap gs) (containerWidth_of p) = clamp 1 c \<lceil>x\<rceil>"
    using c Cb
    by (simp add: spec_gridSpan_def Let_def g x_def y_def c_def [symmetric] C_def [symmetric])
  ultimately show ?thesis by (simp only: ce)
qed

lemma calculateGridSpan_620_of_900:
  "calculateGridSpan \<lparr>columns = 3, gap = 16\<rparr> (Some 900) 620 = Fin 3"
proof -
  have "\<lceil>(477::rat) / 229\<rceil> = 3"
    by (rule ceiling_unique) simp_all
  then have "spec_gridSpan 620 3 16 900 = 3"
    by (simp add: spec_gridSpan_def clamp_def)
  then show ?thesis
    using calculateGridSpan_exact [of "\<lparr>columns = 3, gap = 16\<rparr>" "Some 900" 620]
    by (simp add: band_gridSize_def pixels_def)
qed

text \<open>
  Two inputs outside these bounds, on which the doubles part from exact arithmetic. With
  six columns in a container of 844 pixels the exact quotient for the width 414 is 3; the
  column width 764 / 6 is rounded, the quotient comes out just above 3, and the span is 4.
  With a gap of \<open>10 ^ 308\<close> the products overflow and the span is \<open>NaN\<close>.
\<close>

lemma calculateGridSpan_rounding_example:
  "calculateGridSpan \<lparr>columns = 6, gap = 16\<rparr> (Some 844) 414 = Fin 4 \<and>
   spec_gridSpan 414 6 16 844 = 3"
proof -
  define s :: rat where "s = 8960286758622549 / 2 ^ 46"
  define d :: rat where "d = 5043093332732586 / 2 ^ 45"
  define q :: rat where "q = 6755399441055745 / 2 ^ 51"
  have cols: "num_of_int 6 = Fin 6" and gp: "num_of_int 16 = Fin 16"
    and C: "num_of_int 844 = Fin 844" and w: "num_of_int 414 = Fin 414"
    using num_of_int_small [of 6] num_of_int_small [of 16] num_of_int_small [of 844]
      num_of_int_small [of 414] by simp_all
  have c1: "js_sub (Fin 6) (Fin 1) = Fin 5"
    using js_sub_int [of 6 1] by simp
  have m: "js_mul (Fin 16) (Fin 5) = Fin 80"
    using js_mul_int [of 16 5] by simp
  have A: "js_sub (Fin 844) (Fin 80) = Fin 764"
    using js_sub_int [of 844 80] by simp
  have "rnd (764 / 6) = s"
    using rnd_eval [of 6 "764 / 6" 8960286758622549]
      round_half_even_nearest [of "764 / 6 / 2 powi (6 - 52)" 8960286758622549]
    by (simp add: s_def power_int_def power_divide)
  then have S: "js_div (Fin 764) (Fin 6) = Fin s"
    by (simp add: round_double_small)
  have "rnd (s + 16) = d"
    using rnd_eval [of 7 "s + 16" 5043093332732586]
      round_half_even_tie [of "(s + 16) / 2 powi (7 - 52)" 5043093332732586]
    by (simp add: s_def d_def power_int_def power_divide)
  then have D: "js_add (Fin s) (Fin 16) = Fin d"
    by (simp add: round_double_small s_def)
  have N: "js_add (Fin 414) (Fin 16) = Fin 430"
    using js_add_int [of 414 16] by simp
  have "rnd (430 / d) = q"
    using rnd_eval [of 1 "430 / d" 6755399441055745]
      round_half_even_nearest [of "430 / d / 2 powi (1 - 52)" 6755399441055745]
    by (simp add: d_def q_def power_int_def power_divide)
  then have Q: "js_div (Fin 430) (Fin d) = Fin q"
    by (simp add: round_double_small d_def)
  have nf: "falsy (Fin 6) = False" by (simp add: falsy_def)
  have "calculateGridSpan \<lparr>columns = 6, gap = 16\<rparr> (Some 844) 414 =
          js_max (Fin 1) (js_min (Fin 6) (js_ceil (Fin q)))"
    by (simp add: calculateGridSpan_def Let_def cols gp C w nf c1 m A S D N Q
        del: js_max.simps js_min.simps js_ceil.simps js_div.simps js_add.simps js_mul.simps)
  also have "\<dots> = Fin 4"
  proof -
    have "\<lceil>q\<rceil> = 4" by (rule ceiling_unique) (simp_all add: q_def)
    then show ?thesis by simp
  qed
  finally show ?thesis
    by (simp add: spec_gridSpan_def clamp_def)
qed

lemma calculateGridSpan_overflow_example:
  "calculateGridSpan \<lparr>columns = 3, gap = 10 ^ 308\<rparr> (Some 900) (10 ^ 308) = NaN"
proof -
  define G :: rat where "G = 5010420900022432 * 2 ^ 971"
  have rG: "rnd (10 ^ 308) = G"
    using rnd_eval [of 1023 "10 ^ 308" 5010420900022432]
      round_half_even_nearest [of "10 ^ 308 / 2 powi (1023 - 52)" 5010420900022432]
    by (simp add: G_def power_int_def)
  have gp: "num_of_int (10 ^ 308) = Fin G"
    using rG by (simp add: num_of_int_def round_double_def Let_def G_def)
  have "rnd (G * 2) = G * 2"
    using rnd_exact [of 5010420900022432 972] by (simp add: G_def)
  then have m: "js_mul (Fin G) (Fin 2) = PosInfinity" and N: "js_add (Fin G) (Fin G) = PosInfinity"
    by (simp_all add: round_double_def Let_def G_def)
  have overflow: "calculateGridSpan \<lparr>columns = 3, gap = n\<rparr> (Some 900) n = NaN"
    if n: "num_of_int n = Fin G" for n
  proof -
    have cols: "num_of_int 3 = Fin 3" and C: "num_of_int 900 = Fin 900"
      using num_of_int_small [of 3] num_of_int_small [of 900] by simp_all
    have c1: "js_sub (Fin 3) (Fin 1) = Fin 2"
      using js_sub_int [of 3 1] by simp
    have nf: "falsy (Fin 3) = False" by (simp add: falsy_def)
    have A: "js_sub (Fin 900) PosInfinity = NegInfinity"
      by (simp add: js_sub_def)
    have S: "js_div NegInfinity (Fin 3) = NegInfinity"
      by (simp add: signed_infinity_def)
    have D: "js_add NegInfinity (Fin G) = NegInfinity"
      by simp
    have Q: "js_div PosInfinity NegInfinity = NaN"
      by simp
    have "calculateGridSpan \<lparr>columns = 3, gap = n\<rparr> (Some 900) n =
            js_max (Fin 1) (js_min (Fin 3) (js_ceil NaN))"
      by (simp add: calculateGridSpan_def Let_def cols n C nf c1 m N A S D Q
          signed_infinity_def
          del: js_max.simps js_min.simps js_ceil.simps js_add.simps js_mul.simps)
    then show ?thesis by simp
  qed
  show ?thesis using gp by (rule overflow)
qed

section \<open>The grid span and the specification\<close>

text \<open>The grid configuration stays one of the three bands whatever the events are.\<close>

lemma step_band:
  "band_gridSize (gridSize_state s) \<Longrightarrow> step e s = Some s' \<Longrightarrow> band_gridSize (gridSize_state s')"
  by (cases e) (auto simp: band_gridSize_def updateGridSize_def split: option.splits)

lemma run_band:
  "band_gridSize (gridSize_state s) \<Longrightarrow> run es s = Some s' \<Longrightarrow> band_gridSize (gridSize_state s')"
proof (induction es arbitrary: s)
  case Nil
  then show ?case by simp
next
  case (Cons e es)
  then show ?case by (auto split: option.splits dest: step_band)
qed

lemma initialPage_band: "band_gridSize (gridSize_state initialPage)"
  by (simp add: initialPage_def band_gridSize_def)

text \<open>
  Claim C1. \<open>calculateGridSpan\<close> returns span 1 when the column count or the container
  width is 0, as the first step of the specification says. For every grid configuration
  the page holds (one to three columns, gap 16) and all pixel counts the document can
  give for the container width and the measured width, the result the code computes in
  doubles is the result of the specification's algorithm computed exactly: the ceiling
  of (width + gap) / (single column width + gap), clamped to the interval from 1 to the
  column count.
\<close>

theorem calculateGridSpan_follows_spec:
  "(columns gs = 0 \<or> containerWidth_of p = 0 \<longrightarrow>
      calculateGridSpan gs p w = Fin 1 \<and>
      spec_gridSpan w (columns gs) (gap gs) (containerWidth_of p) = 1) \<and>
   (band_gridSize gs \<and> pixels (containerWidth_of p) \<and> pixels w \<longrightarrow>
      calculateGridSpan gs p w =
        Fin (of_int (spec_gridSpan w (columns gs) (gap gs) (containerWidth_of p))))"
proof -
  have guard: "calculateGridSpan gs p w = Fin 1 \<and>
      spec_gridSpan w (columns gs) (gap gs) (containerWidth_of p) = 1"
    if "columns gs = 0 \<or> containerWidth_of p = 0"
    using that calculateGridSpan_unmeasured [OF that] by (simp add: spec_gridSpan_def)
  show ?thesis
    using guard calculateGridSpan_exact [of gs p w] by blast
qed

theorem calculateGridSpan_follows_spec_witness:
  "calculateGridSpan \<lparr>columns = 3, gap = 16\<rparr> (Some 900) 900 = Fin 3 \<and>
   calculateGridSpan \<lparr>columns = 0, gap = 16\<rparr> (Some 900) 900 = Fin 1"
  using calculateGridSpan_follows_spec [of "\<lparr>columns = 3, gap = 16\<rparr>" "Some 900" 900]
    calculateGridSpan_follows_spec [of "\<lparr>columns = 0, gap = 16\<rparr>" "Some 900" 900]
  by (simp add: band_gridSize_def pixels_def spec_gridSpan_def clamp_def)

text \<open>
  Claim C2. Every state the page reaches from its initial state has a grid configuration
  of one to three columns with gap 16; and for every such configuration, every container
  width and every measured width that is not negative and that the document can give, the
  result of \<open>calculateGridSpan\<close> is a whole number from 1 to the column count.
\<close>

theorem calculateGridSpan_span_bounds:
  "(run es initialPage = Some s \<longrightarrow> band_gridSize (gridSize_state s)) \<and>
   (band_gridSize gs \<and> pixels (containerWidth_of p) \<and> pixels w \<longrightarrow>
      is_span (columns gs) (calculateGridSpan gs p w))"
  using run_band [OF initialPage_band, of es s] calculateGridSpan_is_span [of gs p w]
  by blast

theorem calculateGridSpan_span_bounds_witness:
  "band_gridSize (gridSize_state (the (run [WindowResize 700] initialPage))) \<and>
   is_span 2 (calculateGridSpan \<lparr>columns = 2, gap = 16\<rparr> (Some 600) 300)"
proof -
  have r: "run [WindowResize 700] initialPage = Some (the (run [WindowResize 700] initialPage))"
    by simp
  have h: "band_gridSize \<lparr>columns = 2, gap = 16\<rparr> \<and> pixels (containerWidth_of (Some 600)) \<and>
      pixels 300"
    by (simp add: band_gridSize_def pixels_def)
  show ?thesis
    using calculateGridSpan_span_bounds [of "[WindowResize 700]"
        "the (run [WindowResize 700] initialPage)" "\<lparr>columns = 2, gap = 16\<rparr>" "Some 600" 300]
      r h
    by simp
qed

section \<open>Properties of the card store\<close>

subsection \<open>Deleting a card\<close>

text \<open>
  Claim C6. For every store and every id, \<open>handleDeleteCard\<close> removes the cards with that
  id and keeps all others, each as often as before and in their relative order; it leaves
  the store as it is when no card has the id; applying it twice gives what applying it
  once gives; and deleting id 3 from the six initial cards leaves the five cards 1, 2, 4,
  5, 6 in this order.
\<close>

theorem handleDeleteCard_removes:
  "subseq (handleDeleteCard i cards) cards \<and>
   (\<forall>c\<in>set (handleDeleteCard i cards). id_card c \<noteq> i) \<and>
   mset (handleDeleteCard i cards) = filter_mset (\<lambda>c. id_card c \<noteq> i) (mset cards) \<and>
   (i \<notin> id_card ` set cards \<longrightarrow> handleDeleteCard i cards = cards) \<and>
   handleDeleteCard i (handleDeleteCard i cards) = handleDeleteCard i cards \<and>
   length (handleDeleteCard ''3'' initialCards) = 5 \<and>
   ''3'' \<notin> id_card ` set (handleDeleteCard ''3'' initialCards) \<and>
   map id_card (handleDeleteCard ''3'' initialCards) = [''1'', ''2'', ''4'', ''5'', ''6'']"
proof -
  have order: "subseq (handleDeleteCard i cards) cards"
    by (simp add: handleDeleteCard_def)
  have gone: "\<forall>c\<in>set (handleDeleteCard i cards). id_card c \<noteq> i"
    by (simp add: handleDeleteCard_def)
  have kept: "mset (handleDeleteCard i cards) = filter_mset (\<lambda>c. id_card c \<noteq> i) (mset cards)"
    by (simp add: handleDeleteCard_def)
  have absent: "i \<notin> id_card ` set cards \<longrightarrow> handleDeleteCard i cards = cards"
    by (auto simp add: handleDeleteCard_def filter_id_conv)
  have twice: "handleDeleteCard i (handleDeleteCard i cards) = handleDeleteCard i cards"
    by (simp add: handleDeleteCard_def)
  have seed: "map id_card (handleDeleteCard ''3'' initialCards) = [''1'', ''2'', ''4'', ''5'', ''6'']"
    by (simp add: handleDeleteCard_def initialCards_def)
  have five: "length (handleDeleteCard ''3'' initialCards) = 5"
    using arg_cong [OF seed, of length] by simp
  have no3: "''3'' \<notin> id_card ` set (handleDeleteCard ''3'' initialCards)"
    using arg_cong [OF seed, of set] by simp
  show ?thesis
    using order gone kept absent twice seed five no3 by blast
qed

theorem handleDeleteCard_removes_witness:
  "''9'' \<notin> id_card ` set initialCards \<and>
   handleDeleteCard ''9'' initialCards = initialCards \<and>
   map id_card (handleDeleteCard ''9'' initialCards) = [''1'', ''2'', ''3'', ''4'', ''5'', ''6'']"
  using handleDeleteCard_removes [of "''9''" initialCards]
  by (simp add: initialCards_def)

subsection \<open>Resizing a card\<close>

text \<open>
  Claim C5. For every store, id and values \<open>w\<close>, \<open>h\<close>, \<open>g\<close>: \<open>handleResizeCard\<close> keeps
  the number of cards; at each position whose card has the id, the card afterwards is the
  old one with \<open>width\<close>, \<open>height\<close> and \<open>gridColumn\<close> replaced by \<open>w\<close>, \<open>h\<close> and \<open>g\<close>, so
  that its id, type, title, subtitle, button text, button URL, image URL and row span are
  as before; at every other position the card is unchanged; and when no card has the id
  the store is unchanged.
\<close>

theorem handleResizeCard_frame:
  "length (handleResizeCard i w h g cards) = length cards \<and>
   (\<forall>k<length cards.
      (id_card (cards ! k) = i \<longrightarrow>
         handleResizeCard i w h g cards ! k =
           (cards ! k)\<lparr>width := Some w, height := Some h, gridColumn := Some g\<rparr> \<and>
         width (handleResizeCard i w h g cards ! k) = Some w \<and>
         height (handleResizeCard i w h g cards ! k) = Some h \<and>
         gridColumn (handleResizeCard i w h g cards ! k) = Some g \<and>
         id_card (handleResizeCard i w h g cards ! k) = id_card (cards ! k) \<and>
         type (handleResizeCard i w h g cards ! k) = type (cards ! k) \<and>
         title (handleResizeCard i w h g cards ! k) = title (cards ! k) \<and>
         subtitle (handleResizeCard i w h g cards ! k) = subtitle (cards ! k) \<and>
         buttonText (handleResizeCard i w h g cards ! k) = buttonText (cards ! k) \<and>
         buttonUrl (handleResizeCard i w h g cards ! k) = buttonUrl (cards ! k) \<and>
         imageUrl (handleResizeCard i w h g cards ! k) = imageUrl (cards ! k) \<and>
         gridRow (handleResizeCard i w h g cards ! k) = gridRow (cards ! k)) \<and>
      (id_card (cards ! k) \<noteq> i \<longrightarrow> handleResizeCard i w h g cards ! k = cards ! k)) \<and>
   (i \<notin> id_card ` set cards \<longrightarrow> handleResizeCard i w h g cards = cards)"
proof -
  have "i \<notin> id_card ` set cards \<longrightarrow> handleResizeCard i w h g cards = cards"
    unfolding handleResizeCard_def by (auto intro!: map_idI)
  then show ?thesis
    by (simp add: handleResizeCard_def)
qed

theorem handleResizeCard_frame_witness:
  "handleResizeCard ''2'' (Fin 300) (Fin 200) (Fin 2) initialCards ! 1 =
     (initialCards ! 1)\<lparr>width := Some (Fin 300), height := Some (Fin 200),
                        gridColumn := Some (Fin 2)\<rparr> \<and>
   title (handleResizeCard ''2'' (Fin 300) (Fin 200) (Fin 2) initialCards ! 1) =
     ''Some Tutorials'' \<and>
   handleResizeCard ''2'' (Fin 300) (Fin 200) (Fin 2) initialCards ! 0 = initialCards ! 0 \<and>
   ''9'' \<notin> id_card ` set initialCards \<and>
   handleResizeCard ''9'' (Fin 300) (Fin 200) (Fin 2) initialCards = initialCards"
  using handleResizeCard_frame [of "''2''" "Fin 300" "Fin 200" "Fin 2" initialCards]
    handleResizeCard_frame [of "''9''" "Fin 300" "Fin 200" "Fin 2" initialCards]
  by (simp add: initialCards_def)

text \<open>
  Claim C9, as the code has it. A resize sets the column span only: \<open>handleResizeCard\<close>
  and \<open>handleMouseUp\<close> leave the \<open>gridRow\<close> of every card as it was, and after
  \<open>handleMouseUp\<close> the \<open>gridColumn\<close> of the cards with the id is the result of
  \<open>calculateGridSpan\<close> for the measured width, that of the other cards unchanged.
\<close>

theorem resize_sets_column_span_only:
  "map gridRow (handleResizeCard i w h g cards) = map gridRow cards \<and>
   map gridRow (handleMouseUp gs i current cards) = map gridRow cards \<and>
   map gridColumn (handleMouseUp gs i (Some el) cards) =
     map (\<lambda>c. if id_card c = i
               then Some (calculateGridSpan gs (parentElement el) (int (offsetWidth el)))
               else gridColumn c) cards"
proof -
  have row: "map gridRow (handleResizeCard i w h g cards) = map gridRow cards" for w h g
    by (simp add: handleResizeCard_def comp_def)
  have commit: "map gridRow (handleMouseUp gs i current cards) = map gridRow cards"
    by (cases current) (simp_all add: handleMouseUp_def Let_def row)
  have col: "map gridColumn (handleMouseUp gs i (Some el) cards) =
     map (\<lambda>c. if id_card c = i
               then Some (calculateGridSpan gs (parentElement el) (int (offsetWidth el)))
               else gridColumn c) cards"
    by (simp add: handleMouseUp_def Let_def handleResizeCard_def comp_def)
  show ?thesis
    using row commit col by blast
qed

theorem resize_sets_column_span_only_witness:
  "map gridRow (handleMouseUp \<lparr>columns = 3, gap = 16\<rparr> ''1''
      (Some \<lparr>offsetWidth = 620, offsetHeight = 200, parentElement = Some 900\<rparr>) initialCards) =
     [None, None, None, None, None, None]"
  using resize_sets_column_span_only [of "''1''" "Fin 620" "Fin 200" "Fin 3" initialCards
      "\<lparr>columns = 3, gap = 16\<rparr>"
      "Some \<lparr>offsetWidth = 620, offsetHeight = 200, parentElement = Some 900\<rparr>"]
  by (simp add: initialCards_def)

text \<open>
  Claim C9, as the specification states it, fails: committing a resize of the first
  initial card to 620 by 200 pixels in a container of 900 pixels and three columns sets its
  column span to 3 and leaves it without a row span.
\<close>

theorem resize_leaves_gridRow_counterexample:
  "gridColumn (hd (handleMouseUp \<lparr>columns = 3, gap = 16\<rparr> ''1''
      (Some \<lparr>offsetWidth = 620, offsetHeight = 200, parentElement = Some 900\<rparr>) initialCards)) =
     Some (Fin 3) \<and>
   gridRow (hd (handleMouseUp \<lparr>columns = 3, gap = 16\<rparr> ''1''
      (Some \<lparr>offsetWidth = 620, offsetHeight = 200, parentElement = Some 900\<rparr>) initialCards)) =
     None"
  by (simp add: handleMouseUp_def handleResizeCard_def calculateGridSpan_620_of_900
      initialCards_def)

subsection \<open>Duplicating the first card\<close>

text \<open>
  What \<open>handleDuplicateCard\<close> does whatever the draw is: nothing on the empty store; else
  it appends a copy of the first card with the generated id and the title extended by
  \<open>(Copy)\<close>, after the old cards.
\<close>

lemma handleDuplicateCard_appends:
  "handleDuplicateCard r [] = [] \<and>
   handleDuplicateCard r (c # cs) =
     (c # cs) @ [c\<lparr>id_card := generateId r, title := title c @ '' (Copy)''\<rparr>] \<and>
   length (handleDuplicateCard r (c # cs)) = length (c # cs) + 1"
  by (simp add: handleDuplicateCard_def)

text \<open>
  Claim C3 asks for an id distinct from all ids in the store. The code draws the id at
  random and compares it with nothing: when two clicks on the button get the same draw 0.5,
  whose base 36 text is \<open>0.i\<close>, the second copy gets the id \<open>i\<close> that the first copy
  already has.
\<close>

theorem handleDuplicateCard_id_collision:
  "generateId ''0.i'' = ''i'' \<and>
   map id_card (handleDuplicateCard ''0.i'' initialCards) =
     [''1'', ''2'', ''3'', ''4'', ''5'', ''6'', ''i''] \<and>
   map id_card (handleDuplicateCard ''0.i'' (handleDuplicateCard ''0.i'' initialCards)) =
     [''1'', ''2'', ''3'', ''4'', ''5'', ''6'', ''i'', ''i''] \<and>
   id_card (last (handleDuplicateCard ''0.i'' (handleDuplicateCard ''0.i'' initialCards)))
     \<in> id_card ` set (handleDuplicateCard ''0.i'' initialCards)"
  by (simp add: handleDuplicateCard_def generateId_def initialCards_def)

subsection \<open>The two versions of delete and duplicate\<close>

lemma toV2_id: "id_card (toV2 c) = id_card c"
  by (simp add: toV2_def)

text \<open>
  Claim C10. On every store of the second version the handlers \<open>handleDeleteCard\<close> and
  \<open>handleDuplicateCard\<close> of the two versions return the same store, for every id and
  every draw; and on every store of the first version, read as a store of the second, the
  second version's handlers return what the first version's return.
\<close>

theorem delete_duplicate_versions_agree:
  "handleDeleteCard_v1 i cards = handleDeleteCard i cards \<and>
   handleDuplicateCard_v1 r cards = handleDuplicateCard r cards \<and>
   map toV2 (handleDeleteCard_v1 i cards1) = handleDeleteCard i (map toV2 cards1) \<and>
   map toV2 (handleDuplicateCard_v1 r cards1) = handleDuplicateCard r (map toV2 cards1)"
proof -
  have same: "handleDeleteCard_v1 i cards = handleDeleteCard i cards \<and>
      handleDuplicateCard_v1 r cards = handleDuplicateCard r cards"
    by (simp add: handleDeleteCard_v1_def handleDeleteCard_def handleDuplicateCard_v1_def
        handleDuplicateCard_def)
  have del: "map toV2 (handleDeleteCard_v1 i cards1) = handleDeleteCard i (map toV2 cards1)"
    by (simp add: handleDeleteCard_v1_def handleDeleteCard_def filter_map comp_def toV2_id)
  have dup: "map toV2 (handleDuplicateCard_v1 r cards1) = handleDuplicateCard r (map toV2 cards1)"
    by (cases cards1) (simp_all add: handleDuplicateCard_v1_def handleDuplicateCard_def toV2_def)
  show ?thesis
    using same del dup by blast
qed

subsection \<open>Reordering: indices and the moved array\<close>

text \<open>
  \<open>findIndex\<close> returns -1 or a position of the list, the first one whose item passes.
  When \<open>splice\<close> finds an item at the start position, \<open>arrayMove\<close> returns the
  other items with that item inserted, so it permutes the array; for two positions of the
  array it is the move the specification describes.
\<close>

lemma findIndex_bounds: "-1 \<le> findIndex P xs \<and> findIndex P xs < int (length xs)"
  by (induction xs) (auto simp: Let_def)

lemma findIndex_absent: "findIndex P xs = -1 \<longleftrightarrow> (\<forall>x\<in>set xs. \<not> P x)"
proof (induction xs)
  case Nil then show ?case by simp
next
  case (Cons x xs)
  show ?case
    using Cons.IH findIndex_bounds [of P xs] by (auto simp: Let_def)
qed

lemma findIndex_first:
  "i < length xs \<Longrightarrow> P (xs ! i) \<Longrightarrow> (\<forall>k<i. \<not> P (xs ! k)) \<Longrightarrow> findIndex P xs = int i"
proof (induction xs arbitrary: i)
  case Nil then show ?case by simp
next
  case (Cons x xs)
  show ?case
  proof (cases i)
    case 0 then show ?thesis using Cons.prems by simp
  next
    case (Suc j)
    have "\<not> P x" using Cons.prems(3) Suc by auto
    moreover have "findIndex P xs = int j"
      using Cons.prems Suc by (intro Cons.IH) auto
    ultimately show ?thesis using Suc by (simp add: Let_def)
  qed
qed

lemma arrayMove_removes:
  assumes "a < length xs" and "splice_start (length xs) f = a"
  shows "arrayMove xs f t =
           map Some (take (splice_start (length xs - 1) (if t < 0 then int (length xs) + t else t))
                          (take a xs @ drop (Suc a) xs)
                     @ [xs ! a]
                     @ drop (splice_start (length xs - 1) (if t < 0 then int (length xs) + t else t))
                          (take a xs @ drop (Suc a) xs))"
proof -
  have "take 1 (drop a xs) = [xs ! a]"
    using assms(1) by (simp add: Cons_nth_drop_Suc [symmetric])
  moreover have "length (take a xs @ drop (Suc a) xs) = length xs - 1"
    using assms(1) by simp
  ultimately show ?thesis
    using assms by (simp add: arrayMove_def Let_def del: length_append)
qed

lemma splice_start_lt: "0 < len \<Longrightarrow> f < int len \<Longrightarrow> splice_start len f < len"
  by (auto simp: splice_start_def)

lemma splice_start_nat: "j \<le> len \<Longrightarrow> splice_start len (int j) = j"
  by (simp add: splice_start_def)

lemma items_of_map_Some: "items_of (map Some r) = Some r"
  by (induction r) simp_all

lemma items_of_Some: "items_of r = Some items \<Longrightarrow> r = map Some items"
proof (induction r arbitrary: items)
  case Nil then show ?case by simp
next
  case (Cons x r)
  then show ?case by (cases x) auto
qed

lemma arrayMove_mset:
  assumes "xs \<noteq> []" and "f < int (length xs)"
  shows "\<exists>r. arrayMove xs f t = map Some r \<and> mset r = mset xs"
proof -
  define a where "a = splice_start (length xs) f"
  have a: "a < length xs"
    using assms by (simp add: a_def splice_start_lt)
  define b where "b = splice_start (length xs - 1) (if t < 0 then int (length xs) + t else t)"
  define rest where "rest = take a xs @ drop (Suc a) xs"
  have eq: "arrayMove xs f t = map Some (take b rest @ [xs ! a] @ drop b rest)"
    using arrayMove_removes [OF a a_def [symmetric], of t] by (simp add: b_def rest_def)
  have split: "mset (take b rest) + mset (drop b rest) = mset rest"
    by (simp only: mset_append [symmetric] append_take_drop_id)
  have "mset (take b rest @ [xs ! a] @ drop b rest) =
          add_mset (xs ! a) (mset (take b rest) + mset (drop b rest))"
    by simp
  also have "\<dots> = add_mset (xs ! a) (mset rest)"
    by (simp only: split)
  also have "\<dots> = mset (take a xs @ xs ! a # drop (Suc a) xs)"
    by (simp add: rest_def)
  also have "\<dots> = mset xs"
    using a by (simp only: id_take_nth_drop [symmetric])
  finally show ?thesis
    using eq by blast
qed

lemma handleDragEnd_mset:
  assumes "cards \<noteq> []"
  shows "\<exists>r. handleDragEnd a over cards = map Some r \<and> mset r = mset cards"
proof (cases over)
  case None
  then show ?thesis by (simp add: handleDragEnd_def)
next
  case (Some b)
  show ?thesis
  proof (cases "a = b")
    case True
    then show ?thesis using Some by (simp add: handleDragEnd_def)
  next
    case False
    have "findIndex (\<lambda>item. id_card item = a) cards < int (length cards)"
      using findIndex_bounds by blast
    from arrayMove_mset [OF assms this] show ?thesis
      using Some False by (simp add: handleDragEnd_def Let_def)
  qed
qed

lemma arrayMove_Nil: "arrayMove [] f t = [None]"
  by (simp add: arrayMove_def)

lemma handleDragEnd_items:
  assumes "items_of (handleDragEnd a over cards) = Some items"
  shows "mset items = mset cards"
proof (cases "cards = []")
  case True
  have "handleDragEnd a over [] = [] \<or> handleDragEnd a over [] = [None]"
    by (simp add: handleDragEnd_def arrayMove_Nil split: option.splits)
  then show ?thesis
    using assms True by auto
next
  case False
  from handleDragEnd_mset [OF False, of a over]
  obtain r where r: "handleDragEnd a over cards = map Some r" "mset r = mset cards"
    by blast
  then show ?thesis
    using assms by (simp add: items_of_map_Some)
qed

lemma removed_nth:
  "i < length xs \<Longrightarrow> k < length xs - 1 \<Longrightarrow>
   (take i xs @ drop (Suc i) xs) ! k = (if k < i then xs ! k else xs ! Suc k)"
  by (auto simp: nth_append min_def)

lemma arrayMove_in_range:
  assumes "i < length xs" and "j < length xs"
  shows "\<exists>r. arrayMove xs (int i) (int j) = map Some r \<and> length r = length xs \<and>
           (\<forall>k<length xs. r ! k =
              (if k = j then xs ! i
               else if i \<le> k \<and> k < j then xs ! Suc k
               else if j < k \<and> k \<le> i then xs ! (k - 1)
               else xs ! k))"
proof -
  define rest where "rest = take i xs @ drop (Suc i) xs"
  define r where "r = take j rest @ [xs ! i] @ drop j rest"
  have len: "length rest = length xs - 1"
    using assms(1) by (simp add: rest_def)
  have si: "splice_start (length xs) (int i) = i"
    using assms(1) by (simp add: splice_start_nat)
  have sj: "splice_start (length xs - 1) (int j) = j"
    using assms(2) by (simp add: splice_start_nat)
  have eq: "arrayMove xs (int i) (int j) = map Some r"
    using arrayMove_removes [OF assms(1) si, of "int j"] sj by (simp add: r_def rest_def)
  have lr: "length r = length xs"
    using assms len by (simp add: r_def)
  have nth: "r ! k = (if k = j then xs ! i
               else if i \<le> k \<and> k < j then xs ! Suc k
               else if j < k \<and> k \<le> i then xs ! (k - 1)
               else xs ! k)" if k: "k < length xs" for k
  proof -
    consider "k < j" | "k = j" | "j < k" by linarith
    then show ?thesis
    proof cases
      case 1
      then have "r ! k = rest ! k"
        using len assms(2) by (simp add: r_def nth_append)
      also have "\<dots> = (if k < i then xs ! k else xs ! Suc k)"
        unfolding rest_def using 1 assms by (intro removed_nth) auto
      finally show ?thesis using 1 by auto
    next
      case 2
      then show ?thesis using len assms(2) by (simp add: r_def nth_append)
    next
      case 3
      then have "r ! k = rest ! (k - 1)"
        using len assms(2) k by (auto simp: r_def nth_append nth_Cons' min_def)
      also have "\<dots> = (if k - 1 < i then xs ! (k - 1) else xs ! Suc (k - 1))"
        unfolding rest_def using 3 assms k by (intro removed_nth) auto
      finally show ?thesis using 3 by auto
    qed
  qed
  show ?thesis using eq lr nth by blast
qed

lemma findIndex_id:
  "i < length cards \<Longrightarrow> id_card (cards ! i) = a \<Longrightarrow> (\<forall>k<i. id_card (cards ! k) \<noteq> a) \<Longrightarrow>
   findIndex (\<lambda>item. id_card item = a) cards = int i"
  by (rule findIndex_first) auto

lemma findIndex_append:
  "(\<forall>x\<in>set pre. \<not> P x) \<Longrightarrow> P y \<Longrightarrow> findIndex P (pre @ y # ys) = int (length pre)"
  by (rule findIndex_first) (auto simp: nth_append)

lemma adjacent_swap:
  assumes "id_card x \<noteq> id_card y" and "id_card x \<notin> id_card ` set pre" and "id_card y \<notin> id_card ` set pre"
  shows "handleDragEnd (id_card x) (Some (id_card y)) (pre @ x # y # post) = map Some (pre @ y # x # post)"
    and "handleDragEnd (id_card y) (Some (id_card x)) (pre @ x # y # post) = map Some (pre @ y # x # post)"
proof -
  let ?xs = "pre @ x # y # post"
  let ?n = "length pre"
  have fx: "findIndex (\<lambda>item. id_card item = id_card x) ?xs = int ?n"
    using assms(2) by (intro findIndex_append) (auto simp: image_iff)
  have fy: "findIndex (\<lambda>item. id_card item = id_card y) ?xs = int (Suc ?n)"
  proof -
    have "\<forall>z\<in>set (pre @ [x]). \<not> id_card z = id_card y"
      using assms(1,3) by (auto simp: image_iff)
    then have "findIndex (\<lambda>item. id_card item = id_card y) ((pre @ [x]) @ y # post) =
                 int (length (pre @ [x]))"
      by (intro findIndex_append) auto
    then show ?thesis by simp
  qed
  have sx: "splice_start (length ?xs) (int ?n) = ?n"
    by (simp add: splice_start_nat)
  have sy: "splice_start (length ?xs) (int (Suc ?n)) = Suc ?n"
    by (simp add: splice_start_nat del: of_nat_Suc)
  have "arrayMove ?xs (int ?n) (int (Suc ?n)) = map Some (pre @ y # x # post)"
    using arrayMove_removes [of ?n ?xs "int ?n" "int (Suc ?n)", OF _ sx]
    by (simp add: splice_start_nat nth_append del: of_nat_Suc)
  then show "handleDragEnd (id_card x) (Some (id_card y)) ?xs = map Some (pre @ y # x # post)"
    using assms(1) fx fy by (simp add: handleDragEnd_def Let_def)
  have "arrayMove ?xs (int (Suc ?n)) (int ?n) = map Some (pre @ y # x # post)"
    using arrayMove_removes [of "Suc ?n" ?xs "int (Suc ?n)" "int ?n", OF _ sy]
    by (simp add: splice_start_nat nth_append del: of_nat_Suc)
  then show "handleDragEnd (id_card y) (Some (id_card x)) ?xs = map Some (pre @ y # x # post)"
    using assms(1) fx fy by (simp add: handleDragEnd_def Let_def)
qed

subsection \<open>Reordering on drop: the move\<close>

text \<open>
  Claim C4, as the code has it. When the dragged id \<open>a\<close> and the target id \<open>b\<close> differ
  and both are in the store, first at the positions \<open>i\<close> and \<open>j\<close>, \<open>handleDragEnd\<close>
  returns a store of the same length with the card of position \<open>i\<close> at position \<open>j\<close>,
  the cards between the two positions shifted by one towards \<open>i\<close> and all others in
  place. It returns the store unchanged when the two ids are equal and when there is no
  drop target. The first version does the same for a target that is not null. Dragging
  card 1 onto card 6 in the initial store gives the order 2, 3, 4, 5, 6, 1.
\<close>

theorem handleDragEnd_moves:
  "(i < length cards \<and> id_card (cards ! i) = a \<and> (\<forall>k<i. id_card (cards ! k) \<noteq> a) \<and>
    j < length cards \<and> id_card (cards ! j) = b \<and> (\<forall>k<j. id_card (cards ! k) \<noteq> b) \<and> a \<noteq> b \<longrightarrow>
    (\<exists>r. handleDragEnd a (Some b) cards = map Some r \<and> length r = length cards \<and>
       (\<forall>k<length cards. r ! k =
          (if k = j then cards ! i
           else if i \<le> k \<and> k < j then cards ! Suc k
           else if j < k \<and> k \<le> i then cards ! (k - 1)
           else cards ! k)))) \<and>
   handleDragEnd a (Some a) cards = map Some cards \<and>
   handleDragEnd a None cards = map Some cards \<and>
   handleDragEnd_v1 a (Some b) cards = Inr (handleDragEnd a (Some b) cards) \<and>
   map (map_option id_card) (handleDragEnd ''1'' (Some ''6'') initialCards) =
     [Some ''2'', Some ''3'', Some ''4'', Some ''5'', Some ''6'', Some ''1'']"
proof -
  have move: "\<exists>r. handleDragEnd a (Some b) cards = map Some r \<and> length r = length cards \<and>
       (\<forall>k<length cards. r ! k =
          (if k = j then cards ! i
           else if i \<le> k \<and> k < j then cards ! Suc k
           else if j < k \<and> k \<le> i then cards ! (k - 1)
           else cards ! k))"
    if "i < length cards" "id_card (cards ! i) = a" "\<forall>k<i. id_card (cards ! k) \<noteq> a"
       "j < length cards" "id_card (cards ! j) = b" "\<forall>k<j. id_card (cards ! k) \<noteq> b" "a \<noteq> b"
  proof -
    have "handleDragEnd a (Some b) cards = arrayMove cards (int i) (int j)"
      using that by (simp add: handleDragEnd_def Let_def findIndex_id)
    then show ?thesis
      using arrayMove_in_range [OF that(1) that(4)] by simp
  qed
  have same: "handleDragEnd a (Some a) cards = map Some cards"
    by (simp add: handleDragEnd_def)
  have null: "handleDragEnd a None cards = map Some cards"
    by (simp add: handleDragEnd_def)
  have v1: "handleDragEnd_v1 a (Some b) cards = Inr (handleDragEnd a (Some b) cards)"
    by (simp add: handleDragEnd_v1_def handleDragEnd_def Let_def)
  have seed: "map (map_option id_card) (handleDragEnd ''1'' (Some ''6'') initialCards) =
     [Some ''2'', Some ''3'', Some ''4'', Some ''5'', Some ''6'', Some ''1'']"
    by code_simp
  show ?thesis using move same null v1 seed by blast
qed

theorem handleDragEnd_moves_witness:
  "handleDragEnd ''1'' (Some ''2'') initialCards ! 0 = Some (initialCards ! 1) \<and>
   handleDragEnd ''1'' (Some ''2'') initialCards ! 1 = Some (initialCards ! 0) \<and>
   handleDragEnd ''1'' (Some ''2'') initialCards ! 2 = Some (initialCards ! 2)"
proof -
  have l: "length initialCards = 6"
    by (simp add: initialCards_def)
  have h: "0 < length initialCards \<and> id_card (initialCards ! 0) = ''1'' \<and>
     (\<forall>k<0. id_card (initialCards ! k) \<noteq> ''1'') \<and>
     1 < length initialCards \<and> id_card (initialCards ! 1) = ''2'' \<and>
     (\<forall>k<1. id_card (initialCards ! k) \<noteq> ''2'') \<and> ''1'' \<noteq> ''2''"
    by (simp add: initialCards_def)
  from handleDragEnd_moves [of 0 initialCards "''1''" 1 "''2''"] h
  obtain r where r: "handleDragEnd ''1'' (Some ''2'') initialCards = map Some r"
    "length r = length initialCards"
    "\<forall>k<length initialCards. r ! k =
          (if k = 1 then initialCards ! 0
           else if 0 \<le> k \<and> k < 1 then initialCards ! Suc k
           else if 1 < k \<and> k \<le> 0 then initialCards ! (k - 1)
           else initialCards ! k)"
    by blast
  have "r ! 0 = initialCards ! 1" "r ! 1 = initialCards ! 0" "r ! 2 = initialCards ! 2"
    using r(3) l by simp_all
  then show ?thesis
    using r(1,2) l by simp
qed

text \<open>
  Claim C4, as the specification states it, fails for an id that is not in the store:
  \<open>findIndex\<close> gives -1, and \<open>arrayMove\<close> from -1 takes the last card. Dragging an
  unknown id onto card 1 in the initial store moves card 6 to the front.
\<close>

theorem handleDragEnd_absent_source_counterexample:
  "''zz'' \<notin> id_card ` set initialCards \<and>
   map (map_option id_card) (handleDragEnd ''zz'' (Some ''1'') initialCards) =
     [Some ''6'', Some ''1'', Some ''2'', Some ''3'', Some ''4'', Some ''5''] \<and>
   handleDragEnd ''zz'' (Some ''1'') initialCards \<noteq> map Some initialCards"
  by code_simp

subsection \<open>Reordering on drop: a permutation\<close>

text \<open>
  Claim C7. A drag ends on a store that holds the dragged card, so on a store that is not
  empty. On every such store \<open>handleDragEnd\<close> returns, for every dragged id and every
  target, the cards of the store in some order: the same cards and the same ids, each as
  often as before. For two neighbouring cards whose ids differ and occur nowhere earlier
  in the store, dragging either onto the other swaps the two, and dragging back restores
  the store.
\<close>

theorem handleDragEnd_permutes:
  "(cards \<noteq> [] \<longrightarrow>
      (\<exists>r. handleDragEnd a over cards = map Some r \<and> mset r = mset cards \<and>
           mset (map id_card r) = mset (map id_card cards))) \<and>
   (id_card x \<noteq> id_card y \<and> id_card x \<notin> id_card ` set pre \<and> id_card y \<notin> id_card ` set pre \<longrightarrow>
      handleDragEnd (id_card x) (Some (id_card y)) (pre @ x # y # post) = map Some (pre @ y # x # post) \<and>
      handleDragEnd (id_card y) (Some (id_card x)) (pre @ y # x # post) = map Some (pre @ x # y # post) \<and>
      handleDragEnd (id_card y) (Some (id_card x)) (pre @ x # y # post) = map Some (pre @ y # x # post) \<and>
      handleDragEnd (id_card x) (Some (id_card y)) (pre @ y # x # post) = map Some (pre @ x # y # post))"
proof -
  have perm: "\<exists>r. handleDragEnd a over cards = map Some r \<and> mset r = mset cards \<and>
           mset (map id_card r) = mset (map id_card cards)" if "cards \<noteq> []"
  proof -
    from handleDragEnd_mset [OF that, of a over]
    obtain r where r: "handleDragEnd a over cards = map Some r" "mset r = mset cards"
      by blast
    have "mset (map id_card r) = mset (map id_card cards)"
      using r(2) by (metis mset_map)
    then show ?thesis using r by blast
  qed
  have swap2: "handleDragEnd (id_card x) (Some (id_card y)) (pre @ x # y # post) = map Some (pre @ y # x # post) \<and>
      handleDragEnd (id_card y) (Some (id_card x)) (pre @ y # x # post) = map Some (pre @ x # y # post) \<and>
      handleDragEnd (id_card y) (Some (id_card x)) (pre @ x # y # post) = map Some (pre @ y # x # post) \<and>
      handleDragEnd (id_card x) (Some (id_card y)) (pre @ y # x # post) = map Some (pre @ x # y # post)"
    if h: "id_card x \<noteq> id_card y" "id_card x \<notin> id_card ` set pre" "id_card y \<notin> id_card ` set pre"
    using adjacent_swap [OF h, of post] adjacent_swap [OF h(1) [symmetric] h(3) h(2), of post]
    by simp
  show ?thesis using perm swap2 by blast
qed

theorem handleDragEnd_permutes_witness:
  "mset (map (map_option id_card) (handleDragEnd ''zz'' (Some ''1'') initialCards)) =
     mset (map (Some \<circ> id_card) initialCards) \<and>
   handleDragEnd ''1'' (Some ''2'') (take 2 initialCards) = map Some (rev (take 2 initialCards)) \<and>
   handleDragEnd ''2'' (Some ''1'') (rev (take 2 initialCards)) = map Some (take 2 initialCards)"
proof -
  have ne: "initialCards \<noteq> []" by (simp add: initialCards_def)
  from handleDragEnd_permutes [of initialCards "''zz''" "Some ''1''"] ne
  obtain r where r: "handleDragEnd ''zz'' (Some ''1'') initialCards = map Some r"
    "mset (map id_card r) = mset (map id_card initialCards)"
    by blast
  have "map (map_option id_card) (handleDragEnd ''zz'' (Some ''1'') initialCards) = map Some (map id_card r)"
    by (simp add: r(1))
  then have 1: "mset (map (map_option id_card) (handleDragEnd ''zz'' (Some ''1'') initialCards)) =
     mset (map (Some \<circ> id_card) initialCards)"
    using r(2) by (metis map_map mset_map)
  have t: "take 2 initialCards = [] @ initialCards ! 0 # initialCards ! 1 # []"
     "rev (take 2 initialCards) = [] @ initialCards ! 1 # initialCards ! 0 # []"
     "id_card (initialCards ! 0) = ''1''" "id_card (initialCards ! 1) = ''2''"
    by (simp_all add: initialCards_def)
  have 2: "handleDragEnd ''1'' (Some ''2'') (take 2 initialCards) = map Some (rev (take 2 initialCards)) \<and>
   handleDragEnd ''2'' (Some ''1'') (rev (take 2 initialCards)) = map Some (take 2 initialCards)"
    using handleDragEnd_permutes [of _ _ _ "initialCards ! 0" "initialCards ! 1" "[]" "[]"]
    unfolding t by simp
  show ?thesis using 1 2 by blast
qed

section \<open>Properties of the page\<close>

text \<open>
  Claim C8 asks that every card's span lies between 1 and the current column count in
  every state the page reaches. The resize commit bounds the span by the column count of
  that moment, but \<open>updateGridSize\<close> replaces the grid configuration and leaves the cards
  as they are. On a wide window a resize of the first card to 620 pixels in a container
  of 900 commits the span 3; a window resize to 500 pixels then sets the column count to
  1 and the span of the card is still 3.
\<close>

theorem window_shrink_leaves_stale_span:
  "map_option spans_fit (run [WindowResize 1280,
      MouseUp ''1'' (Some \<lparr>offsetWidth = 620, offsetHeight = 200, parentElement = Some 900\<rparr>),
      WindowResize 500] initialPage) = Some False \<and>
   map_option (columns \<circ> gridSize_state) (run [WindowResize 1280,
      MouseUp ''1'' (Some \<lparr>offsetWidth = 620, offsetHeight = 200, parentElement = Some 900\<rparr>),
      WindowResize 500] initialPage) = Some 1 \<and>
   map_option (gridColumn \<circ> hd \<circ> cards_state) (run [WindowResize 1280,
      MouseUp ''1'' (Some \<lparr>offsetWidth = 620, offsetHeight = 200, parentElement = Some 900\<rparr>),
      WindowResize 500] initialPage) = Some (Some (Fin 3))"
  by (simp add: initialPage_def initialCards_def updateGridSize_def handleMouseUp_def
      handleResizeCard_def calculateGridSpan_620_of_900 spans_fit_def span_in_range_def
      is_span_def)

end
